theory Spec2Isabelle
  imports Complex_Main "HOL-Library.Char_ord" "HOL-Library.List_Lexorder" "HOL-Library.Multiset"
    "HOL-Library.Sublist"
begin

section \<open>Python values, dictionaries and exceptions\<close>

text \<open>
  The benchmark scripts handle three kinds of Python values: strings (every cell that
  \<^verbatim>\<open>csv.DictReader\<close> reads), \<^verbatim>\<open>None\<close> (the reader's fill-in for a column that a
  short row lacks) and floats (the percentage changes). Floats are idealised as exact
  rationals: rounding, overflow, infinities and NaN are outside the model.
\<close>

datatype pyval = PyStr string | PyNone | PyFloat rat

datatype error = ValueError | TypeError | KeyError | ZeroDivisionError | CsvError

type_synonym pydict = "string \<rightharpoonup> pyval"

text \<open>
  A row as \<^verbatim>\<open>csv.DictReader\<close> yields it: the cells under the column names, and, when
  the row had more cells than the header, the surplus cells as a list under the key
  \<^verbatim>\<open>None\<close> (\<open>extra\<close>).
\<close>

record row =
  cols :: pydict
  extra :: "string list option"

text \<open>\<^verbatim>\<open>d[k]\<close>: a missing key raises KeyError.\<close>

definition getitem :: "pydict \<Rightarrow> string \<Rightarrow> error + pyval" where
  "getitem d k = (case d k of None \<Rightarrow> Inl KeyError | Some v \<Rightarrow> Inr v)"

section \<open>The csv module, excel dialect\<close>

text \<open>
  Both scripts go through Python's \<^verbatim>\<open>csv\<close> module with its default dialect: delimiter
  comma, quote character \<^verbatim>\<open>"\<close> doubled inside quoted fields, no escape character,
  minimal quoting, line terminator CR LF, not strict. The module belongs to the
  standard library, not to the repository; the definitions follow CPython's reader and
  writer (\<^verbatim>\<open>Modules/_csv.c\<close>) and \<^verbatim>\<open>DictReader\<close> and \<^verbatim>\<open>DictWriter\<close> of \<^verbatim>\<open>Lib/csv.py\<close>.
\<close>

abbreviation CR :: char where "CR \<equiv> CHR 0x0D"
abbreviation LF :: char where "LF \<equiv> CHR 0x0A"

subsection \<open>Reading\<close>

text \<open>
  A file opened for reading in text mode without \<^verbatim>\<open>newline=''\<close> translates every
  CR LF and every lone CR into LF before the reader sees the text.
\<close>

fun universal_newlines :: "string \<Rightarrow> string" where
  "universal_newlines [] = []"
| "universal_newlines [c] = [if c = CR then LF else c]"
| "universal_newlines (c # d # ds) =
     (if c = CR \<and> d = LF then LF # universal_newlines ds
      else if c = CR then LF # universal_newlines (d # ds)
      else c # universal_newlines (d # ds))"

text \<open>
  The reader is a state machine over the characters of each line, followed by an
  end-of-line signal. Without an escape character three of its states are unreachable
  and left out.
\<close>

datatype parser_state =
  START_RECORD | START_FIELD | IN_FIELD | IN_QUOTED_FIELD | QUOTE_IN_QUOTED_FIELD | EAT_CRNL

datatype input = Ch char | EOL

record reader =
  pstate :: parser_state
  pfields :: "string list"
  pfield :: string

definition parse_reset :: reader where
  "parse_reset = \<lparr>pstate = START_RECORD, pfields = [], pfield = []\<rparr>"

definition field_limit :: nat where
  "field_limit = 131072"

definition parse_add_char :: "reader \<Rightarrow> char \<Rightarrow> error + reader" where
  "parse_add_char r c =
     (if field_limit \<le> length (pfield r) then Inl CsvError
      else Inr (r\<lparr>pfield := pfield r @ [c]\<rparr>))"

definition parse_save_field :: "reader \<Rightarrow> reader" where
  "parse_save_field r = r\<lparr>pfields := pfields r @ [pfield r], pfield := []\<rparr>"

definition set_state :: "parser_state \<Rightarrow> reader \<Rightarrow> reader" where
  "set_state st r = r\<lparr>pstate := st\<rparr>"

definition is_newline :: "char \<Rightarrow> bool" where
  "is_newline c = (c = LF \<or> c = CR)"

definition end_of_line :: "reader \<Rightarrow> input \<Rightarrow> reader" where
  "end_of_line r i =
     set_state (if i = EOL then START_RECORD else EAT_CRNL) (parse_save_field r)"

definition start_field :: "reader \<Rightarrow> input \<Rightarrow> error + reader" where
  "start_field r i =
     (case i of
        EOL \<Rightarrow> Inr (end_of_line r i)
      | Ch c \<Rightarrow>
          if is_newline c then Inr (end_of_line r i)
          else if c = CHR 0x22 then Inr (set_state IN_QUOTED_FIELD r)
          else if c = CHR '','' then Inr (parse_save_field r)
          else map_sum id (set_state IN_FIELD) (parse_add_char r c))"

definition parse_process_char :: "reader \<Rightarrow> input \<Rightarrow> error + reader" where
  "parse_process_char r i =
     (case pstate r of
        START_RECORD \<Rightarrow>
          (case i of
             EOL \<Rightarrow> Inr r
           | Ch c \<Rightarrow>
               if is_newline c then Inr (set_state EAT_CRNL r)
               else start_field (set_state START_FIELD r) i)
      | START_FIELD \<Rightarrow> start_field r i
      | IN_FIELD \<Rightarrow>
          (case i of
             EOL \<Rightarrow> Inr (end_of_line r i)
           | Ch c \<Rightarrow>
               if is_newline c then Inr (end_of_line r i)
               else if c = CHR '','' then Inr (set_state START_FIELD (parse_save_field r))
               else parse_add_char r c)
      | IN_QUOTED_FIELD \<Rightarrow>
          (case i of
             EOL \<Rightarrow> Inr r
           | Ch c \<Rightarrow>
               if c = CHR 0x22 then Inr (set_state QUOTE_IN_QUOTED_FIELD r)
               else parse_add_char r c)
      | QUOTE_IN_QUOTED_FIELD \<Rightarrow>
          (case i of
             EOL \<Rightarrow> Inr (end_of_line r i)
           | Ch c \<Rightarrow>
               if c = CHR 0x22 then map_sum id (set_state IN_QUOTED_FIELD) (parse_add_char r c)
               else if c = CHR '','' then Inr (set_state START_FIELD (parse_save_field r))
               else if is_newline c then Inr (end_of_line r i)
               else map_sum id (set_state IN_FIELD) (parse_add_char r c))
      | EAT_CRNL \<Rightarrow>
          (case i of
             EOL \<Rightarrow> Inr (set_state START_RECORD r)
           | Ch c \<Rightarrow> if is_newline c then Inr r else Inl CsvError))"

text \<open>
  The iteration of the reader over the lines of the text. A line ends after each LF
  and at the end of a text whose last line has no LF; there the machine receives the
  end-of-line signal, and a record is complete when that leaves it in \<open>START_RECORD\<close>
  (a quoted field continues on the next line). At the end of the text an unfinished
  record is returned as it stands.
\<close>

fun read_records :: "reader \<Rightarrow> string \<Rightarrow> error + string list list" where
  "read_records r [] =
     Inr (if pfield r \<noteq> [] \<or> pstate r = IN_QUOTED_FIELD
          then [pfields (parse_save_field r)] else [])"
| "read_records r (c # cs) =
     (case parse_process_char r (Ch c) of Inl e \<Rightarrow> Inl e | Inr r1 \<Rightarrow>
        if c = LF \<or> cs = [] then
          (case parse_process_char r1 EOL of Inl e \<Rightarrow> Inl e | Inr r2 \<Rightarrow>
             if pstate r2 = START_RECORD
             then map_sum id (Cons (pfields r2)) (read_records parse_reset cs)
             else read_records r2 cs)
        else read_records r1 cs)"

definition csv_reader :: "string \<Rightarrow> error + string list list" where
  "csv_reader text = read_records parse_reset text"

text \<open>
  \<^verbatim>\<open>DictReader.__next__\<close>: the cells are zipped with the field names (a later
  duplicate name wins); surplus cells go under the key \<^verbatim>\<open>None\<close>, and the names that a
  short row leaves over are set to \<^verbatim>\<open>None\<close>. No case raises an error.
\<close>

definition dict_row :: "string list \<Rightarrow> string list \<Rightarrow> row" where
  "dict_row fieldnames r =
     \<lparr>cols = map_of (rev (zip fieldnames (map PyStr r))) ++
               map_of (map (\<lambda>key. (key, PyNone)) (drop (length r) fieldnames)),
      extra = (if length fieldnames < length r then Some (drop (length fieldnames) r)
               else None)\<rparr>"

text \<open>
  \<^verbatim>\<open>DictReader\<close> over a whole text: the first record is the header, and empty records
  (blank lines) after it are skipped.
\<close>

definition dict_reader :: "string \<Rightarrow> error + row list" where
  "dict_reader text =
     (case csv_reader text of
        Inl e \<Rightarrow> Inl e
      | Inr [] \<Rightarrow> Inr []
      | Inr (fieldnames # rows) \<Rightarrow> Inr (map (dict_row fieldnames) (filter (\<lambda>r. r \<noteq> []) rows)))"

subsection \<open>Writing\<close>

text \<open>
  A field is quoted when it contains the delimiter, the quote character or a character
  of the line terminator, and when it is the empty only field of its row.
\<close>

definition needs_quotes :: "string \<Rightarrow> bool" where
  "needs_quotes f = list_ex (\<lambda>c. c = CHR '','' \<or> c = CHR 0x22 \<or> c = CR \<or> c = LF) f"

definition double_quotes :: "string \<Rightarrow> string" where
  "double_quotes f = concat (map (\<lambda>c. if c = CHR 0x22 then [c, c] else [c]) f)"

definition quote_field :: "string \<Rightarrow> string" where
  "quote_field f = CHR 0x22 # double_quotes f @ [CHR 0x22]"

definition write_field :: "bool \<Rightarrow> string \<Rightarrow> string" where
  "write_field only f = (if needs_quotes f \<or> (only \<and> f = []) then quote_field f else f)"

fun join_fields :: "string list \<Rightarrow> string" where
  "join_fields [] = []"
| "join_fields [f] = f"
| "join_fields (f # g # fs) = f @ CHR '','' # join_fields (g # fs)"

definition csv_writerow :: "string list \<Rightarrow> string" where
  "csv_writerow fs = join_fields (map (write_field (length fs = 1)) fs) @ [CR, LF]"

text \<open>
  \<^verbatim>\<open>DictWriter\<close> with \<^verbatim>\<open>extrasaction='raise'\<close>: a key outside the field names raises
  ValueError; a field name without a value is written as the empty string. The
  dictionary is a list of key-value pairs with distinct keys. Both methods return the
  file's text with the line appended.
\<close>

type_synonym strdict = "(string \<times> string) list"

definition dict_to_list :: "string list \<Rightarrow> strdict \<Rightarrow> error + string list" where
  "dict_to_list fieldnames rowdict =
     (if list_ex (\<lambda>(k, v). k \<notin> set fieldnames) rowdict then Inl ValueError
      else Inr (map (\<lambda>key. case map_of rowdict key of None \<Rightarrow> [] | Some v \<Rightarrow> v) fieldnames))"

definition dict_writerow :: "string list \<Rightarrow> strdict \<Rightarrow> string \<Rightarrow> error + string" where
  "dict_writerow fieldnames rowdict f =
     map_sum id (\<lambda>r. f @ csv_writerow r) (dict_to_list fieldnames rowdict)"

definition writeheader :: "string list \<Rightarrow> string \<Rightarrow> error + string" where
  "writeheader fieldnames f = dict_writerow fieldnames (zip fieldnames fieldnames) f"

section \<open>compare\_baselines.py\<close>

subsection \<open>load\_baselines\<close>

text \<open>
  The ledger is opened with \<^verbatim>\<open>open(csv_file, 'r')\<close>, so its text passes through the
  newline translation, and every row of the \<^verbatim>\<open>DictReader\<close> is collected. The argument
  is the text of the file.
\<close>

definition load_baselines :: "string \<Rightarrow> error + row list" where
  "load_baselines csv_file = dict_reader (universal_newlines csv_file)"

subsection \<open>calculate\_percentage\_change\<close>

text \<open>
  The builtin \<^verbatim>\<open>float\<close> on a string is a parameter of the model, \<open>fs\<close>: it gives the
  value of a string that is a float literal and \<open>None\<close> where \<^verbatim>\<open>float\<close> raises ValueError.
  On \<^verbatim>\<open>None\<close> the builtin raises TypeError; a float is returned as it is.
\<close>

type_synonym float_parser = "string \<Rightarrow> rat option"

fun py_float :: "float_parser \<Rightarrow> pyval \<Rightarrow> error + rat" where
  "py_float fs (PyStr s) = (case fs s of None \<Rightarrow> Inl ValueError | Some x \<Rightarrow> Inr x)"
| "py_float fs (PyFloat x) = Inr x"
| "py_float fs PyNone = Inl TypeError"

text \<open>Float division raises ZeroDivisionError on a zero divisor.\<close>

definition py_truediv :: "rat \<Rightarrow> rat \<Rightarrow> error + rat" where
  "py_truediv a b = (if b = 0 then Inl ZeroDivisionError else Inr (a / b))"

text \<open>The body of the \<^verbatim>\<open>try\<close> block, lines 23 to 27.\<close>

definition percentage_change_body :: "float_parser \<Rightarrow> pyval \<Rightarrow> pyval \<Rightarrow> error + pyval" where
  "percentage_change_body fs old new =
     (case py_float fs old of Inl e \<Rightarrow> Inl e | Inr old_val \<Rightarrow>
     (case py_float fs new of Inl e \<Rightarrow> Inl e | Inr new_val \<Rightarrow>
      if old_val = 0 then Inr (PyStr ''N/A'')
      else (case py_truediv (new_val - old_val) old_val of Inl e \<Rightarrow> Inl e
            | Inr q \<Rightarrow> Inr (PyFloat (q * 100)))))"

text \<open>
  The \<^verbatim>\<open>except (ValueError, TypeError)\<close> clause turns these two exceptions into
  \<^verbatim>\<open>"N/A"\<close>; any other exception propagates.
\<close>

definition calculate_percentage_change :: "float_parser \<Rightarrow> pyval \<Rightarrow> pyval \<Rightarrow> error + pyval" where
  "calculate_percentage_change fs old new =
     (case percentage_change_body fs old new of
        Inl ValueError \<Rightarrow> Inr (PyStr ''N/A'')
      | Inl TypeError \<Rightarrow> Inr (PyStr ''N/A'')
      | r \<Rightarrow> r)"

subsection \<open>compare\_baselines\<close>

definition metrics :: "string list" where
  "metrics = [''FileOpenTime'', ''FileSaveTime'', ''MemoryUsage'',
              ''TextInsertionTime'', ''NavigationTime'', ''ScrollingTime'',
              ''SearchReplaceTime'']"

text \<open>
  \<^verbatim>\<open>baselines.sort(key=lambda x: x['Date'])\<close>. The keys of all elements are computed
  first, so a row without the key raises KeyError. With two or more elements every key
  takes part in a comparison: strings compare with strings by code points and floats
  with floats, anything else (a \<^verbatim>\<open>None\<close>, or a string against a float) raises
  TypeError. Python's sort is stable, as \<open>sort_key\<close> is.
\<close>

definition is_str :: "pyval \<Rightarrow> bool" where
  "is_str v = (case v of PyStr _ \<Rightarrow> True | _ \<Rightarrow> False)"

definition is_float :: "pyval \<Rightarrow> bool" where
  "is_float v = (case v of PyFloat _ \<Rightarrow> True | _ \<Rightarrow> False)"

definition str_of :: "pyval \<Rightarrow> string" where
  "str_of v = (case v of PyStr s \<Rightarrow> s | _ \<Rightarrow> [])"

definition float_of :: "pyval \<Rightarrow> rat" where
  "float_of v = (case v of PyFloat x \<Rightarrow> x | _ \<Rightarrow> 0)"

definition date_key :: "row \<Rightarrow> pyval" where
  "date_key x = (case cols x ''Date'' of Some v \<Rightarrow> v | None \<Rightarrow> PyNone)"

definition date_str :: "row \<Rightarrow> string" where
  "date_str x = str_of (date_key x)"

definition date_num :: "row \<Rightarrow> rat" where
  "date_num x = float_of (date_key x)"

definition sort_by_date :: "row list \<Rightarrow> error + row list" where
  "sort_by_date baselines =
     (if list_ex (\<lambda>x. cols x ''Date'' = None) baselines then Inl KeyError
      else if length baselines < 2 then Inr baselines
      else if list_all (\<lambda>x. is_str (date_key x)) baselines
        then Inr (sort_key date_str baselines)
      else if list_all (\<lambda>x. is_float (date_key x)) baselines
        then Inr (sort_key date_num baselines)
      else Inl TypeError)"

text \<open>The dictionary literal of lines 45 to 52; the items are evaluated in order.\<close>

definition comparison_overview :: "row \<Rightarrow> row \<Rightarrow> error + pydict" where
  "comparison_overview latest previous =
     (case getitem (cols latest) ''Date'' of Inl e \<Rightarrow> Inl e | Inr d \<Rightarrow>
     (case getitem (cols previous) ''Date'' of Inl e \<Rightarrow> Inl e | Inr pd \<Rightarrow>
     (case getitem (cols latest) ''CommitHash'' of Inl e \<Rightarrow> Inl e | Inr c \<Rightarrow>
     (case getitem (cols previous) ''CommitHash'' of Inl e \<Rightarrow> Inl e | Inr pc \<Rightarrow>
     (case getitem (cols latest) ''BuildConfig'' of Inl e \<Rightarrow> Inl e | Inr b \<Rightarrow>
     (case getitem (cols previous) ''BuildConfig'' of Inl e \<Rightarrow> Inl e | Inr pb \<Rightarrow>
        Inr [''Date'' \<mapsto> d, ''PreviousDate'' \<mapsto> pd,
             ''CommitHash'' \<mapsto> c, ''PreviousCommitHash'' \<mapsto> pc,
             ''BuildConfig'' \<mapsto> b, ''PreviousBuildConfig'' \<mapsto> pb]))))))"

text \<open>The loop of lines 59 to 61 over the metric names.\<close>

fun compare_metrics ::
  "float_parser \<Rightarrow> row \<Rightarrow> row \<Rightarrow> string list \<Rightarrow> pydict \<Rightarrow> error + pydict" where
  "compare_metrics fs previous latest [] comparison = Inr comparison"
| "compare_metrics fs previous latest (metric # ms) comparison =
     (case getitem (cols previous) metric of Inl e \<Rightarrow> Inl e | Inr old \<Rightarrow>
     (case getitem (cols latest) metric of Inl e \<Rightarrow> Inl e | Inr new \<Rightarrow>
     (case calculate_percentage_change fs old new of Inl e \<Rightarrow> Inl e | Inr change \<Rightarrow>
        compare_metrics fs previous latest ms (comparison(metric @ ''_Change'' \<mapsto> change)))))"

text \<open>
  The outcome of a call that does not raise: the caller's list as the call leaves it
  (the sort is in place), the lines printed, and the value returned (\<open>None\<close> for the
  bare \<^verbatim>\<open>return\<close>).
\<close>

record outcome =
  baselines_after :: "row list"
  printed :: "string list"
  returned :: "pydict option"

definition compare_baselines :: "float_parser \<Rightarrow> row list \<Rightarrow> error + outcome" where
  "compare_baselines fs baselines =
     (if length baselines < 2
      then Inr \<lparr>baselines_after = baselines,
                printed = [''Need at least 2 baselines for comparison''],
                returned = None\<rparr>
      else (case sort_by_date baselines of Inl e \<Rightarrow> Inl e | Inr sorted_bs \<Rightarrow>
        let latest = last sorted_bs;
            previous = sorted_bs ! (length sorted_bs - 2)
        in (case comparison_overview latest previous of Inl e \<Rightarrow> Inl e | Inr comparison \<Rightarrow>
           (case compare_metrics fs previous latest metrics comparison of Inl e \<Rightarrow> Inl e
            | Inr comparison' \<Rightarrow>
                Inr \<lparr>baselines_after = sorted_bs, printed = [],
                     returned = Some comparison'\<rparr>))))"

subsection \<open>generate\_markdown\_report: the table of changes\<close>

text \<open>
  \<^verbatim>\<open>f"{change:+.2f}"\<close>: the sign, then the magnitude rounded to two decimals (ties to
  even on the exact value, as Python's float formatting does).
\<close>

definition digit_char :: "nat \<Rightarrow> char" where
  "digit_char d = ''0123456789'' ! (d mod 10)"

fun str_of_nat :: "nat \<Rightarrow> string" where
  "str_of_nat n = (if n < 10 then [digit_char n] else str_of_nat (n div 10) @ [digit_char n])"

declare str_of_nat.simps [simp del]

definition round_half_even :: "rat \<Rightarrow> nat" where
  "round_half_even q =
     (let f = nat \<lfloor>q\<rfloor>; r = q - of_int \<lfloor>q\<rfloor>
      in if r < 1/2 then f else if 1/2 < r then f + 1 else if even f then f else f + 1)"

definition format_signed_2f :: "rat \<Rightarrow> string" where
  "format_signed_2f x =
     (let n = round_half_even (\<bar>x\<bar> * 100)
      in (if x < 0 then ''-'' else ''+'') @ str_of_nat (n div 100) @ ''.'' @
         [digit_char (n div 10), digit_char n])"

text \<open>
  Lines 88 to 90: a change other than \<^verbatim>\<open>"N/A"\<close> is formatted as a float; the format
  code raises ValueError on another string and TypeError on \<^verbatim>\<open>None\<close>.
\<close>

definition format_change :: "pyval \<Rightarrow> error + string" where
  "format_change change =
     (if change \<noteq> PyStr ''N/A''
      then (case change of PyFloat x \<Rightarrow> Inr (format_signed_2f x @ ''%'')
            | PyStr s \<Rightarrow> Inl ValueError | PyNone \<Rightarrow> Inl TypeError)
      else Inr ''N/A'')"

text \<open>The loop of lines 87 to 91, appending one table row per metric to the report.\<close>

fun report_rows :: "pydict \<Rightarrow> string list \<Rightarrow> string \<Rightarrow> error + string" where
  "report_rows comparison [] report = Inr report"
| "report_rows comparison (metric # ms) report =
     (case getitem comparison (metric @ ''_Change'') of Inl e \<Rightarrow> Inl e | Inr change \<Rightarrow>
     (case format_change change of Inl e \<Rightarrow> Inl e | Inr change' \<Rightarrow>
        report_rows comparison ms
          (report @ ''| '' @ metric @ '' | '' @ change' @ '' |'' @ [CHR 0x0A])))"

text \<open>
  The reading of an unsigned decimal integer, the only numeric form that
  \<^verbatim>\<open>extract_metrics\<close> writes into the ledger (the capture of \<^verbatim>\<open>(\d+)\<close>); on these
  strings \<^verbatim>\<open>float\<close> returns the same number.
\<close>

definition is_digit :: "char \<Rightarrow> bool" where
  "is_digit c = (CHR ''0'' \<le> c \<and> c \<le> CHR ''9'')"

definition digit_val :: "char \<Rightarrow> nat" where
  "digit_val c = of_char c - of_char CHR ''0''"

definition float_of_digits :: float_parser where
  "float_of_digits s =
     (if s \<noteq> [] \<and> list_all is_digit s
      then Some (of_nat (foldl (\<lambda>n c. 10 * n + digit_val c) 0 s))
      else None)"

section \<open>extract\_performance\_metrics.py\<close>

text \<open>
  The values that \<^verbatim>\<open>extract_metrics\<close> obtains from its environment (the clock, git, the
  host) are gathered in a record; the calls that obtain them are not modelled.
\<close>

record environment =
  today :: string
  commit_hash :: string
  cpu_model :: string
  ram :: string
  os_name :: string

text \<open>
  Every pattern is a literal, the group \<^verbatim>\<open>(\d+)\<close> and a literal, as in
  \<^verbatim>\<open>r'File open time: (\d+)ms'\<close>; the table gives the metric and the two literals.
  The text is a string of 8-bit characters, among which \<^verbatim>\<open>\d\<close> matches the ten ASCII
  digits.
\<close>

definition patterns :: "(string \<times> string \<times> string) list" where
  "patterns =
     [(''FileOpenTime'', ''File open time: '', ''ms''),
      (''FileSaveTime'', ''File save time: '', ''ms''),
      (''MemoryUsage'', ''Memory usage: '', ''MB''),
      (''TextInsertionTime'', ''Text insertion time: '', ''ms''),
      (''NavigationTime'', ''Navigation time: '', ''ms''),
      (''ScrollingTime'', ''Scrolling time: '', ''ms''),
      (''SearchReplaceTime'', ''Search/Replace time: '', ''ms'')]"

text \<open>
  A match of \<open>lit (\d+) suf\<close> at the start of \<open>s\<close>, giving the group. The group is
  greedy; as no suffix starts with a digit, only the longest run of digits can be
  followed by the suffix, so backtracking to a shorter run never succeeds.
\<close>

definition match_at :: "string \<Rightarrow> string \<Rightarrow> string \<Rightarrow> string option" where
  "match_at lit suf s =
     (if prefix lit s
      then let r = drop (length lit) s; ds = takeWhile is_digit r
           in if ds \<noteq> [] \<and> prefix suf (dropWhile is_digit r) then Some ds else None
      else None)"

text \<open>\<^verbatim>\<open>re.search\<close>: the match at the leftmost position that has one.\<close>

fun re_search :: "string \<Rightarrow> string \<Rightarrow> string \<Rightarrow> string option" where
  "re_search lit suf [] = match_at lit suf []"
| "re_search lit suf (c # cs) =
     (case match_at lit suf (c # cs) of Some g \<Rightarrow> Some g | None \<Rightarrow> re_search lit suf cs)"

text \<open>\<^verbatim>\<open>d[k] = v\<close> on a dictionary kept as a list of pairs.\<close>

fun setitem :: "string \<Rightarrow> string \<Rightarrow> strdict \<Rightarrow> strdict" where
  "setitem k v [] = [(k, v)]"
| "setitem k v (p # ps) = (if fst p = k then (k, v) # ps else p # setitem k v ps)"

definition initial_metrics :: "environment \<Rightarrow> string \<Rightarrow> strdict" where
  "initial_metrics env build_config =
     [(''Date'', today env), (''CommitHash'', commit_hash env), (''CPUModel'', cpu_model env),
      (''RAM'', ram env), (''OS'', os_name env), (''BuildConfig'', build_config)]"

text \<open>Line 71: \<^verbatim>\<open>match.group(1) if match else 'N/A'\<close>, for a row \<open>p\<close> of the table.\<close>

definition metric_value :: "string \<Rightarrow> string \<times> string \<times> string \<Rightarrow> string" where
  "metric_value content p =
     (case re_search (fst (snd p)) (snd (snd p)) content of Some g \<Rightarrow> g | None \<Rightarrow> ''N/A'')"

text \<open>The loop of lines 69 to 71; \<open>d\<close> is the dictionary that the source calls \<^verbatim>\<open>metrics\<close>.\<close>

fun extract_loop :: "(string \<times> string \<times> string) list \<Rightarrow> string \<Rightarrow> strdict \<Rightarrow> strdict" where
  "extract_loop [] content d = d"
| "extract_loop (p # ps) content d =
     extract_loop ps content (setitem (fst p) (metric_value content p) d)"

definition fieldnames :: "string list" where
  "fieldnames = [''Date'', ''CommitHash'', ''CPUModel'', ''RAM'', ''OS'', ''BuildConfig'',
                 ''FileOpenTime'', ''FileSaveTime'', ''MemoryUsage'', ''TextInsertionTime'',
                 ''NavigationTime'', ''ScrollingTime'', ''SearchReplaceTime'']"

text \<open>Lines 45 to 71: the dictionary \<^verbatim>\<open>metrics\<close> as it stands before the ledger is written.\<close>

definition metrics_dict :: "environment \<Rightarrow> string \<Rightarrow> string \<Rightarrow> strdict" where
  "metrics_dict env content build_config =
     extract_loop patterns content (initial_metrics env build_config)"

text \<open>
  \<open>content\<close> is the text of the input file and \<open>output_file\<close> the text of the ledger,
  \<open>None\<close> when the file does not exist; the result is the text of the ledger after the
  call. Mode \<^verbatim>\<open>'a'\<close> creates the file when it is absent, and \<^verbatim>\<open>newline=''\<close> writes the
  line terminators as they are.
\<close>

definition extract_metrics ::
  "environment \<Rightarrow> string \<Rightarrow> string option \<Rightarrow> string \<Rightarrow> error + string" where
  "extract_metrics env content output_file build_config =
     (let d = metrics_dict env content build_config;
          file_exists = (output_file \<noteq> None);
          f = (case output_file of None \<Rightarrow> [] | Some text \<Rightarrow> text)
      in case (if \<not> file_exists then writeheader fieldnames f else Inr f) of
           Inl e \<Rightarrow> Inl e
         | Inr f' \<Rightarrow> dict_writerow fieldnames d f')"

section \<open>Records of the data model and example data\<close>

text \<open>
  A BaselineRecord of the data model: the date is a string, and the commit, the build
  configuration and every metric of the MetricSet have a value.
\<close>

definition baseline_record :: "row \<Rightarrow> bool" where
  "baseline_record r =
     (is_str (date_key r) \<and>
      list_all (\<lambda>k. cols r k \<noteq> None) ([''Date'', ''CommitHash'', ''BuildConfig''] @ metrics))"

text \<open>A ledger row for the scenarios: a date, a commit, and the values of two metrics.\<close>

definition example_row :: "string \<Rightarrow> string \<Rightarrow> string \<Rightarrow> string \<Rightarrow> row" where
  "example_row date commit open_time memory =
     \<lparr>cols = [''Date'' \<mapsto> PyStr date, ''CommitHash'' \<mapsto> PyStr commit,
              ''CPUModel'' \<mapsto> PyStr ''cpu'', ''RAM'' \<mapsto> PyStr ''32GB'',
              ''OS'' \<mapsto> PyStr ''Linux 6.1'', ''BuildConfig'' \<mapsto> PyStr ''Release'',
              ''FileOpenTime'' \<mapsto> PyStr open_time, ''FileSaveTime'' \<mapsto> PyStr ''N/A'',
              ''MemoryUsage'' \<mapsto> PyStr memory, ''TextInsertionTime'' \<mapsto> PyStr ''7'',
              ''NavigationTime'' \<mapsto> PyStr ''3'', ''ScrollingTime'' \<mapsto> PyStr ''4'',
              ''SearchReplaceTime'' \<mapsto> PyStr ''9''],
      extra = None\<rparr>"

text \<open>An environment and a test output for the scenarios.\<close>

definition example_env :: environment where
  "example_env = \<lparr>today = ''2024-01-01'', commit_hash = ''a0'', cpu_model = ''cpu'',
                   ram = ''32GB'', os_name = ''Linux 6.1''\<rparr>"

definition example_output :: string where
  "example_output =
     ''Run 1'' @ [LF] @ ''File open time: 42ms'' @ [LF] @ ''Memory usage: 512MB'' @ [LF]"

text \<open>
  The header row of the ledger as text, and the thirteen values of a record in column
  order, stated directly: the six values of the environment and the caller, then the
  value of each pattern.
\<close>

definition header_line :: string where
  "header_line =
     ''Date,CommitHash,CPUModel,RAM,OS,BuildConfig,FileOpenTime,FileSaveTime,'' @
     ''MemoryUsage,TextInsertionTime,NavigationTime,ScrollingTime,SearchReplaceTime'' @
     [CR, LF]"

definition record_values :: "environment \<Rightarrow> string \<Rightarrow> string \<Rightarrow> string list" where
  "record_values env content build_config =
     [today env, commit_hash env, cpu_model env, ram env, os_name env, build_config] @
     map (metric_value content) patterns"

text \<open>A ledger with a row of two cells and a row of fourteen cells.\<close>

definition damaged_ledger :: string where
  "damaged_ledger =
     header_line @ ''2024-01-01,a0'' @ [CR, LF] @
     ''2024-01-02,b1,cpu,32GB,Linux,Release,41,52,512,7,3,4,9,8'' @ [CR, LF]"

section \<open>Auxiliary notions for the round trip through the ledger\<close>

text \<open>
  The text of a field, quoted or plain; when the writer quotes a field; the fields that
  the reader recovers from their text (a plain field has no character that needs
  quotes, and no field exceeds the limit); and the text of a row without its line
  terminator.
\<close>

definition field_text :: "bool \<Rightarrow> string \<Rightarrow> string" where
  "field_text q f = (if q then quote_field f else f)"

definition quoted :: "bool \<Rightarrow> string \<Rightarrow> bool" where
  "quoted only f = (needs_quotes f \<or> (only \<and> f = []))"

definition readable :: "bool \<times> string \<Rightarrow> bool" where
  "readable qf = ((fst qf \<or> \<not> needs_quotes (snd qf)) \<and> length (snd qf) \<le> field_limit)"

definition row_text :: "(bool \<times> string) list \<Rightarrow> string" where
  "row_text qs = join_fields (map (\<lambda>qf. field_text (fst qf) (snd qf)) qs)"

text \<open>A ledger as appends leave it: the header row, then one row per record.\<close>

definition ledger :: "string list list \<Rightarrow> string" where
  "ledger rows = header_line @ concat (map csv_writerow rows)"

text \<open>Rows that the reader can recover: no row is empty and no field exceeds the limit.\<close>

definition clean_rows :: "string list list \<Rightarrow> bool" where
  "clean_rows rows = (\<forall>fs\<in>set rows. fs \<noteq> [] \<and> (\<forall>f\<in>set fs. length f \<le> field_limit))"

text \<open>The keys of a comparison report: six overview fields and one change per metric.\<close>

definition report_keys :: "string list" where
  "report_keys = [''Date'', ''PreviousDate'', ''CommitHash'', ''PreviousCommitHash'',
                  ''BuildConfig'', ''PreviousBuildConfig''] @ map (\<lambda>m. m @ ''_Change'') metrics"

section \<open>Properties of the comparison\<close>

lemma py_float_error: "py_float fs v = Inl e \<Longrightarrow> e = ValueError \<or> e = TypeError"
  by (cases v) (auto split: option.splits)

lemma calculate_percentage_change_eq:
  "calculate_percentage_change fs old new =
     (case py_float fs old of Inl e \<Rightarrow> Inr (PyStr ''N/A'') | Inr p \<Rightarrow>
     (case py_float fs new of Inl e \<Rightarrow> Inr (PyStr ''N/A'') | Inr l \<Rightarrow>
        if p = 0 then Inr (PyStr ''N/A'') else Inr (PyFloat ((l - p) / p * 100))))"
  by (auto simp: calculate_percentage_change_def percentage_change_body_def py_truediv_def
      split: sum.splits error.splits dest: py_float_error)

lemma calculate_percentage_change_total:
  "\<exists>v. calculate_percentage_change fs old new = Inr v"
  by (simp add: calculate_percentage_change_eq split: sum.splits)

lemma compare_metrics_frame:
  "compare_metrics fs p l ms c = Inr c' \<Longrightarrow> k \<notin> (\<lambda>m. m @ ''_Change'') ` set ms \<Longrightarrow>
   c' k = c k"
  by (induction ms arbitrary: c) (auto split: sum.splits)

lemma compare_metrics_ok:
  "list_all (\<lambda>k. cols p k \<noteq> None \<and> cols l k \<noteq> None) ms \<Longrightarrow>
   \<exists>c'. compare_metrics fs p l ms c = Inr c'"
proof (induction ms arbitrary: c)
  case Nil
  then show ?case by simp
next
  case (Cons m ms)
  obtain v where v: "calculate_percentage_change fs (the (cols p m)) (the (cols l m)) = Inr v"
    using calculate_percentage_change_total by blast
  from Cons.prems have "list_all (\<lambda>k. cols p k \<noteq> None \<and> cols l k \<noteq> None) ms" by simp
  from Cons.IH[OF this] obtain c' where
    "compare_metrics fs p l ms (c(m @ ''_Change'' \<mapsto> v)) = Inr c'" by blast
  with Cons.prems v show ?case by (auto simp: getitem_def)
qed

lemma compare_metrics_value:
  "compare_metrics fs p l ms c = Inr c' \<Longrightarrow> m \<in> set ms \<Longrightarrow>
   \<exists>old new v. cols p m = Some old \<and> cols l m = Some new \<and>
     calculate_percentage_change fs old new = Inr v \<and> c' (m @ ''_Change'') = Some v"
proof (induction ms arbitrary: c)
  case Nil
  then show ?case by simp
next
  case (Cons x ms)
  from Cons.prems(1) obtain old new v where
    o: "cols p x = Some old" and n: "cols l x = Some new"
    and v: "calculate_percentage_change fs old new = Inr v"
    and r: "compare_metrics fs p l ms (c(x @ ''_Change'' \<mapsto> v)) = Inr c'"
    by (auto simp: getitem_def split: sum.splits option.splits)
  show ?case
  proof (cases "m \<in> set ms")
    case True
    from Cons.IH[OF r True] show ?thesis .
  next
    case False
    with Cons.prems(2) have mx: "m = x" by simp
    from False have "m @ ''_Change'' \<notin> (\<lambda>m. m @ ''_Change'') ` set ms" by auto
    from compare_metrics_frame[OF r this] mx have "c' (m @ ''_Change'') = Some v" by simp
    with o n v mx show ?thesis by simp
  qed
qed

lemma is_str_date_present: "is_str (date_key x) \<Longrightarrow> cols x ''Date'' \<noteq> None"
  by (auto simp: is_str_def date_key_def split: option.splits)

lemma sort_by_date_str:
  "2 \<le> length bs \<Longrightarrow> list_all (\<lambda>x. is_str (date_key x)) bs \<Longrightarrow>
   sort_by_date bs = Inr (sort_key date_str bs)"
  by (auto simp: sort_by_date_def list_ex_iff list_all_iff dest: is_str_date_present)

lemma sorted_key_last_max:
  assumes "xs \<noteq> []" and "sorted (map f xs)"
  shows "f (last xs) = Max (f ` set xs)"
proof (cases xs rule: rev_cases)
  case Nil
  with assms show ?thesis by simp
next
  case (snoc ys y)
  with assms have "\<forall>a\<in>set ys. f a \<le> f y" by (auto simp: sorted_append)
  then have "Max (f ` set (ys @ [y])) = f y"
    by (intro Max_eqI) auto
  with snoc show ?thesis by simp
qed

lemma last_filter_same_key:
  "xs \<noteq> [] \<Longrightarrow> last (filter (\<lambda>x. f x = f (last xs)) xs) = last xs"
  by (cases xs rule: rev_cases) auto

lemma sort_by_date_mset: "sort_by_date bs = Inr s \<Longrightarrow> mset s = mset bs"
  by (auto simp: sort_by_date_def split: if_splits)

lemma compare_baselines_Inr:
  "compare_baselines fs bs = Inr out \<Longrightarrow> 2 \<le> length bs \<Longrightarrow>
   \<exists>s c c'. sort_by_date bs = Inr s \<and>
       comparison_overview (last s) (s ! (length s - 2)) = Inr c \<and>
       compare_metrics fs (s ! (length s - 2)) (last s) metrics c = Inr c' \<and>
       out = \<lparr>baselines_after = s, printed = [], returned = Some c'\<rparr>"
  by (auto simp: compare_baselines_def Let_def split: sum.splits if_splits)

lemma comparison_overview_ok:
  "baseline_record l \<Longrightarrow> baseline_record p \<Longrightarrow> \<exists>c. comparison_overview l p = Inr c"
  by (auto simp: comparison_overview_def getitem_def baseline_record_def split: option.splits)

lemma compare_baselines_ok:
  assumes len: "2 \<le> length bs" and wf: "list_all baseline_record bs"
  shows "\<exists>c c'.
     comparison_overview (last (sort_key date_str bs)) (sort_key date_str bs ! (length bs - 2))
       = Inr c \<and>
     compare_metrics fs (sort_key date_str bs ! (length bs - 2)) (last (sort_key date_str bs))
       metrics c = Inr c' \<and>
     compare_baselines fs bs =
       Inr \<lparr>baselines_after = sort_key date_str bs, printed = [], returned = Some c'\<rparr>"
proof -
  let ?s = "sort_key date_str bs"
  have s: "sort_by_date bs = Inr ?s"
    using len wf by (intro sort_by_date_str) (auto simp: list_all_iff baseline_record_def)
  have ne: "?s \<noteq> []" using len by (metis length_sort list.size(3) not_numeral_le_zero)
  have "last ?s \<in> set ?s" using ne by (rule last_in_set)
  then have l: "baseline_record (last ?s)" using wf by (simp add: list_all_iff)
  have "?s ! (length bs - 2) \<in> set ?s" using len by (intro nth_mem) simp
  then have p: "baseline_record (?s ! (length bs - 2))" using wf by (simp add: list_all_iff)
  from comparison_overview_ok[OF l p] obtain c where
    c: "comparison_overview (last ?s) (?s ! (length bs - 2)) = Inr c" by blast
  have "list_all (\<lambda>k. cols (?s ! (length bs - 2)) k \<noteq> None \<and> cols (last ?s) k \<noteq> None) metrics"
    using l p by (simp add: baseline_record_def list_all_iff)
  from compare_metrics_ok[OF this] obtain c' where
    c': "compare_metrics fs (?s ! (length bs - 2)) (last ?s) metrics c = Inr c'" by blast
  show ?thesis using len s c c' by (auto simp: compare_baselines_def)
qed

lemma example_row_record: "baseline_record (example_row d c t m)"
  by (simp add: baseline_record_def example_row_def is_str_def date_key_def metrics_def)

lemma compare_baselines_after:
  "2 \<le> length bs \<Longrightarrow> list_all baseline_record bs \<Longrightarrow>
   map_sum id baselines_after (compare_baselines fs bs) = Inr (sort_key date_str bs)"
  using compare_baselines_ok[of bs fs] by auto

lemma compare_baselines_short:
  "length bs < 2 \<Longrightarrow> compare_baselines fs bs =
     Inr \<lparr>baselines_after = bs, printed = [''Need at least 2 baselines for comparison''], returned = None\<rparr>"
  by (simp add: compare_baselines_def)

lemma short_sorted: "length xs < 2 \<Longrightarrow> sorted (map f xs)"
  by (cases xs) auto

lemma sort_by_date_unchanged:
  "sort_by_date bs = Inr s \<Longrightarrow> list_all (\<lambda>x. is_str (date_key x)) bs \<Longrightarrow>
   sorted (map date_str bs) \<Longrightarrow> s = bs"
  by (auto simp: sort_by_date_def sort_key_id_if_sorted split: if_splits)

lemma sort_by_date_sorted:
  "sort_by_date bs = Inr s \<Longrightarrow> list_all (\<lambda>x. is_str (date_key x)) bs \<Longrightarrow>
   sorted (map date_str s)"
  by (auto simp: sort_by_date_def short_sorted split: if_splits)

lemma comparison_overview_fields:
  "comparison_overview l p = Inr c \<Longrightarrow>
   c ''Date'' = cols l ''Date'' \<and> c ''PreviousDate'' = cols p ''Date'' \<and>
   c ''CommitHash'' = cols l ''CommitHash'' \<and> c ''PreviousCommitHash'' = cols p ''CommitHash'' \<and>
   c ''BuildConfig'' = cols l ''BuildConfig'' \<and> c ''PreviousBuildConfig'' = cols p ''BuildConfig''"
  by (auto simp: comparison_overview_def getitem_def split: option.splits sum.splits)

lemma compare_metrics_overview:
  "compare_metrics fs p l metrics c = Inr c' \<Longrightarrow>
   k \<in> {''Date'', ''PreviousDate'', ''CommitHash'', ''PreviousCommitHash'', ''BuildConfig'', ''PreviousBuildConfig''} \<Longrightarrow>
   c' k = c k"
  by (erule compare_metrics_frame) (auto simp: metrics_def)

lemma date_str_example [simp]: "date_str (example_row d c t m) = d"
  by (simp add: date_str_def date_key_def str_of_def example_row_def)


lemma example_row_CommitHash: "cols (example_row d c t m) ''CommitHash'' = Some (PyStr c)"
  by (simp add: example_row_def)

lemma example_row_date_inject: "example_row d c t m = example_row d' c' t' m' \<Longrightarrow> d = d'"
  by (drule arg_cong[where f = date_str]) simp


lemma float_of_digits_NA: "float_of_digits ''N/A'' = None"
  by (simp add: float_of_digits_def is_digit_def)

lemma max_dates: "Max {''2024-03-01'', ''2024-01-01''} = ''2024-03-01''"
  by simp






text \<open>
  C2. When the previous value is numeric zero, \<open>calculate_percentage_change\<close> returns
  \<^verbatim>\<open>"N/A"\<close>, whatever the latest value is. The body of the \<^verbatim>\<open>try\<close> block never raises
  ZeroDivisionError, which only a division by zero raises, and the function never
  raises at all.
\<close>

theorem zero_previous_not_applicable:
  "(py_float fs old = Inr 0 \<longrightarrow>
      calculate_percentage_change fs old new = Inr (PyStr ''N/A''))
   \<and> percentage_change_body fs old new \<noteq> Inl ZeroDivisionError
   \<and> calculate_percentage_change fs old new \<noteq> Inl e"
  by (auto simp: calculate_percentage_change_eq percentage_change_body_def py_truediv_def
      split: sum.splits dest: py_float_error)

text \<open>The scenario of the specification: previous MemoryUsage 0, latest 50.\<close>

theorem zero_previous_not_applicable_witness:
  "py_float float_of_digits (PyStr ''0'') = Inr 0 \<and>
   calculate_percentage_change float_of_digits (PyStr ''0'') (PyStr ''50'') = Inr (PyStr ''N/A'')"
  using zero_previous_not_applicable [of float_of_digits "PyStr ''0''" "PyStr ''50''"]
  by (simp add: float_of_digits_def is_digit_def digit_val_def)

text \<open>
  C3, as the specification states it, fails: \<open>compare_baselines\<close> sorts the caller's
  list in place, so a ledger that is not in date order is reordered by the call.
\<close>

theorem compare_reorders_input_counterexample:
  "map_sum id baselines_after
     (compare_baselines float_of_digits
        [example_row ''2024-02-01'' ''b1'' ''150'' ''50'',
         example_row ''2024-01-01'' ''a0'' ''100'' ''0''])
     = Inr [example_row ''2024-01-01'' ''a0'' ''100'' ''0'',
            example_row ''2024-02-01'' ''b1'' ''150'' ''50''] \<and>
   [example_row ''2024-01-01'' ''a0'' ''100'' ''0'',
    example_row ''2024-02-01'' ''b1'' ''150'' ''50''] \<noteq>
   [example_row ''2024-02-01'' ''b1'' ''150'' ''50'',
    example_row ''2024-01-01'' ''a0'' ''100'' ''0'']"
  by (auto simp: compare_baselines_after example_row_record dest: example_row_date_inject)

text \<open>
  C3, amended. After a call that returns, the caller's list holds the same records
  (a permutation of the input); it is unchanged when it has fewer than two records and
  when its string dates are already in order, and in date order whenever the dates are
  strings. The only other effect is the one line printed when there are fewer than two
  records.
\<close>

theorem compare_sorts_in_place:
  assumes "compare_baselines fs bs = Inr out"
  shows "mset (baselines_after out) = mset bs \<and>
         (length bs < 2 \<longrightarrow> baselines_after out = bs \<and>
            printed out = [''Need at least 2 baselines for comparison'']) \<and>
         (2 \<le> length bs \<longrightarrow> printed out = []) \<and>
         (list_all (\<lambda>x. is_str (date_key x)) bs \<longrightarrow>
            sorted (map date_str (baselines_after out)) \<and>
            (sorted (map date_str bs) \<longrightarrow> baselines_after out = bs))"
proof (cases "length bs < 2")
  case True
  with assms compare_baselines_short[of bs fs] have
    "out = \<lparr>baselines_after = bs, printed = [''Need at least 2 baselines for comparison''], returned = None\<rparr>"
    by simp
  with True show ?thesis by (simp add: short_sorted)
next
  case False
  then have "2 \<le> length bs" by simp
  from compare_baselines_Inr[OF assms this] obtain s c' where
    s: "sort_by_date bs = Inr s" and o: "out = \<lparr>baselines_after = s, printed = [], returned = Some c'\<rparr>"
    by blast
  show ?thesis using False o sort_by_date_mset[OF s] sort_by_date_unchanged[OF s] sort_by_date_sorted[OF s]
    by auto
qed

theorem compare_sorts_in_place_witness:
  "\<exists>out.
     compare_baselines float_of_digits
       [example_row ''2024-02-01'' ''b1'' ''150'' ''50'',
        example_row ''2024-01-01'' ''a0'' ''100'' ''0''] = Inr out \<and>
     mset (baselines_after out) =
       mset [example_row ''2024-02-01'' ''b1'' ''150'' ''50'',
             example_row ''2024-01-01'' ''a0'' ''100'' ''0''] \<and>
     printed out = [] \<and> sorted (map date_str (baselines_after out))"
proof -
  let ?bs = "[example_row ''2024-02-01'' ''b1'' ''150'' ''50'',
        example_row ''2024-01-01'' ''a0'' ''100'' ''0'']"
  from compare_baselines_ok[of ?bs float_of_digits] obtain out where
    out: "compare_baselines float_of_digits ?bs = Inr out"
    by (auto simp: example_row_record)
  have str: "list_all (\<lambda>x. is_str (date_key x)) ?bs"
    using example_row_record by (simp add: baseline_record_def)
  from compare_sorts_in_place[OF out] str out show ?thesis by simp
qed




lemma compare_metrics_dom:
  "compare_metrics fs p l ms c = Inr c' \<Longrightarrow> dom c' = dom c \<union> (\<lambda>m. m @ ''_Change'') ` set ms"
  by (induction ms arbitrary: c) (auto split: sum.splits)

lemma comparison_overview_dom:
  "comparison_overview l p = Inr c \<Longrightarrow>
   dom c = {''Date'', ''PreviousDate'', ''CommitHash'', ''PreviousCommitHash'',
            ''BuildConfig'', ''PreviousBuildConfig''}"
  by (auto simp: comparison_overview_def split: sum.splits if_splits)

lemma compare_baselines_report:
  assumes "compare_baselines fs bs = Inr out" and "2 \<le> length bs"
  shows "\<exists>report. returned out = Some report \<and> printed out = [] \<and>
     dom report = set report_keys \<and>
     (let latest = last (baselines_after out);
          previous = baselines_after out ! (length bs - 2)
      in report ''Date'' = cols latest ''Date'' \<and>
         report ''PreviousDate'' = cols previous ''Date'' \<and>
         report ''CommitHash'' = cols latest ''CommitHash'' \<and>
         report ''PreviousCommitHash'' = cols previous ''CommitHash'' \<and>
         report ''BuildConfig'' = cols latest ''BuildConfig'' \<and>
         report ''PreviousBuildConfig'' = cols previous ''BuildConfig'' \<and>
         (\<forall>m\<in>set metrics. \<exists>old new v. cols previous m = Some old \<and> cols latest m = Some new \<and>
            calculate_percentage_change fs old new = Inr v \<and>
            report (m @ ''_Change'') = Some v))"
proof -
  from compare_baselines_Inr[OF assms] obtain s c c' where
    s: "sort_by_date bs = Inr s"
    and c: "comparison_overview (last s) (s ! (length s - 2)) = Inr c"
    and c': "compare_metrics fs (s ! (length s - 2)) (last s) metrics c = Inr c'"
    and o: "out = \<lparr>baselines_after = s, printed = [], returned = Some c'\<rparr>"
    by blast
  have len: "length s = length bs" using sort_by_date_mset[OF s] by (metis size_mset)
  have d: "dom c' = set report_keys"
    using compare_metrics_dom[OF c'] comparison_overview_dom[OF c]
    by (auto simp: report_keys_def)
  have f: "c' ''Date'' = cols (last s) ''Date'' \<and>
         c' ''PreviousDate'' = cols (s ! (length s - 2)) ''Date'' \<and>
         c' ''CommitHash'' = cols (last s) ''CommitHash'' \<and>
         c' ''PreviousCommitHash'' = cols (s ! (length s - 2)) ''CommitHash'' \<and>
         c' ''BuildConfig'' = cols (last s) ''BuildConfig'' \<and>
         c' ''PreviousBuildConfig'' = cols (s ! (length s - 2)) ''BuildConfig''"
    using comparison_overview_fields[OF c] compare_metrics_overview[OF c'] by simp
  have m: "\<forall>m\<in>set metrics. \<exists>old new v. cols (s ! (length s - 2)) m = Some old \<and>
            cols (last s) m = Some new \<and>
            calculate_percentage_change fs old new = Inr v \<and> c' (m @ ''_Change'') = Some v"
    using compare_metrics_value[OF c'] by blast
  show ?thesis using o d f m len by (simp add: Let_def)
qed

text \<open>
  C6. On fewer than two records \<open>compare_baselines\<close> returns normally, having printed
  the insufficient-data message, and returns no report. On exactly two records it never
  prints the message, and whenever it returns it returns a report: a dictionary with
  exactly the six overview fields, taken from the later and the earlier record, and
  one change per metric, computed from the two records' values. When both are baseline
  records it does return.
\<close>

theorem insufficient_data_boundary:
  "(length bs < 2 \<longrightarrow>
      compare_baselines fs bs =
        Inr \<lparr>baselines_after = bs, printed = [''Need at least 2 baselines for comparison''],
             returned = None\<rparr>) \<and>
   (length bs = 2 \<longrightarrow>
      (\<forall>out. compare_baselines fs bs = Inr out \<longrightarrow>
         (\<exists>report. returned out = Some report \<and> printed out = [] \<and>
            dom report = set report_keys \<and>
            (let latest = last (baselines_after out);
                 previous = baselines_after out ! (length bs - 2)
             in report ''Date'' = cols latest ''Date'' \<and>
                report ''PreviousDate'' = cols previous ''Date'' \<and>
                report ''CommitHash'' = cols latest ''CommitHash'' \<and>
                report ''PreviousCommitHash'' = cols previous ''CommitHash'' \<and>
                report ''BuildConfig'' = cols latest ''BuildConfig'' \<and>
                report ''PreviousBuildConfig'' = cols previous ''BuildConfig'' \<and>
                (\<forall>m\<in>set metrics. \<exists>old new v.
                   cols previous m = Some old \<and> cols latest m = Some new \<and>
                   calculate_percentage_change fs old new = Inr v \<and>
                   report (m @ ''_Change'') = Some v)))) \<and>
      (list_all baseline_record bs \<longrightarrow> (\<exists>out. compare_baselines fs bs = Inr out)))"
proof (intro conjI impI allI)
  assume "length bs < 2"
  then show "compare_baselines fs bs =
        Inr \<lparr>baselines_after = bs, printed = [''Need at least 2 baselines for comparison''],
             returned = None\<rparr>" by (rule compare_baselines_short)
next
  fix out assume "length bs = 2" and "compare_baselines fs bs = Inr out"
  then show "\<exists>report. returned out = Some report \<and> printed out = [] \<and>
            dom report = set report_keys \<and>
            (let latest = last (baselines_after out);
                 previous = baselines_after out ! (length bs - 2)
             in report ''Date'' = cols latest ''Date'' \<and>
                report ''PreviousDate'' = cols previous ''Date'' \<and>
                report ''CommitHash'' = cols latest ''CommitHash'' \<and>
                report ''PreviousCommitHash'' = cols previous ''CommitHash'' \<and>
                report ''BuildConfig'' = cols latest ''BuildConfig'' \<and>
                report ''PreviousBuildConfig'' = cols previous ''BuildConfig'' \<and>
                (\<forall>m\<in>set metrics. \<exists>old new v.
                   cols previous m = Some old \<and> cols latest m = Some new \<and>
                   calculate_percentage_change fs old new = Inr v \<and>
                   report (m @ ''_Change'') = Some v))"
    by (intro compare_baselines_report) simp_all
next
  assume "length bs = 2" and "list_all baseline_record bs"
  with compare_baselines_ok[of bs fs] show "\<exists>out. compare_baselines fs bs = Inr out" by auto
qed

theorem insufficient_data_boundary_witness:
  "compare_baselines float_of_digits [] =
     Inr \<lparr>baselines_after = [], printed = [''Need at least 2 baselines for comparison''],
          returned = None\<rparr> \<and>
   compare_baselines float_of_digits [example_row ''2024-01-01'' ''a0'' ''100'' ''0''] =
     Inr \<lparr>baselines_after = [example_row ''2024-01-01'' ''a0'' ''100'' ''0''],
          printed = [''Need at least 2 baselines for comparison''], returned = None\<rparr> \<and>
   (\<exists>out report.
      compare_baselines float_of_digits
        [example_row ''2024-01-01'' ''a0'' ''100'' ''0'',
         example_row ''2024-02-01'' ''b1'' ''150'' ''50''] = Inr out \<and>
      printed out = [] \<and> returned out = Some report \<and> dom report = set report_keys)"
proof -
  let ?bs = "[example_row ''2024-01-01'' ''a0'' ''100'' ''0'',
         example_row ''2024-02-01'' ''b1'' ''150'' ''50'']"
  note two = insufficient_data_boundary [of ?bs float_of_digits]
  from two obtain out where out: "compare_baselines float_of_digits ?bs = Inr out"
    by (auto simp: example_row_record)
  with two have "\<exists>report. returned out = Some report \<and> printed out = [] \<and>
      dom report = set report_keys" by (auto simp: Let_def)
  with out insufficient_data_boundary [of "[]" float_of_digits]
    insufficient_data_boundary [of "[example_row ''2024-01-01'' ''a0'' ''100'' ''0'']" float_of_digits]
  show ?thesis by auto
qed

text \<open>
  C10. The date sort is stable: the records of any one date keep their file order,
  and the record selected as latest is the last one in file order among the records
  with the greatest date; the report carries its date, commit and build configuration.
\<close>

theorem date_sort_stable:
  assumes "compare_baselines fs bs = Inr out" and "2 \<le> length bs"
    and "list_all (\<lambda>x. is_str (date_key x)) bs"
    and "latest = last (filter (\<lambda>x. date_str x = Max (date_str ` set bs)) bs)"
  shows "(\<forall>d. filter (\<lambda>x. date_str x = d) (baselines_after out) = filter (\<lambda>x. date_str x = d) bs) \<and>
         last (baselines_after out) = latest \<and>
         (\<exists>report. returned out = Some report \<and> report ''Date'' = cols latest ''Date'' \<and>
            report ''CommitHash'' = cols latest ''CommitHash'' \<and>
            report ''BuildConfig'' = cols latest ''BuildConfig'')"
proof -
  let ?s = "sort_key date_str bs"
  from compare_baselines_Inr[OF assms(1,2)] obtain s c c' where
    s: "sort_by_date bs = Inr s"
    and c: "comparison_overview (last s) (s ! (length s - 2)) = Inr c"
    and c': "compare_metrics fs (s ! (length s - 2)) (last s) metrics c = Inr c'"
    and o: "out = \<lparr>baselines_after = s, printed = [], returned = Some c'\<rparr>"
    by blast
  from s sort_by_date_str[OF assms(2,3)] have ss: "s = ?s" by simp
  have ne: "?s \<noteq> []" using assms(2) by (metis length_sort list.size(3) not_numeral_le_zero)
  have stable: "filter (\<lambda>x. date_str x = d) ?s = filter (\<lambda>x. date_str x = d) bs" for d
    by (rule sort_key_stable)
  have "date_str (last ?s) = Max (date_str ` set ?s)"
    using ne by (intro sorted_key_last_max) simp_all
  then have mx: "date_str (last ?s) = Max (date_str ` set bs)" by simp
  have "last ?s = last (filter (\<lambda>x. date_str x = date_str (last ?s)) ?s)"
    using ne by (simp add: last_filter_same_key)
  also have "\<dots> = latest" unfolding assms(4) mx stable ..
  finally have l: "last ?s = latest" .
  from comparison_overview_fields[OF c] compare_metrics_overview[OF c']
  have "c' ''Date'' = cols (last s) ''Date'' \<and> c' ''CommitHash'' = cols (last s) ''CommitHash'' \<and>
     c' ''BuildConfig'' = cols (last s) ''BuildConfig''" by simp
  with o ss l stable show ?thesis by simp
qed

theorem date_sort_stable_witness:
  "\<exists>out report.
     compare_baselines float_of_digits
       [example_row ''2024-03-01'' ''c2'' ''150'' ''50'',
        example_row ''2024-01-01'' ''a0'' ''100'' ''0'',
        example_row ''2024-03-01'' ''d3'' ''120'' ''40''] = Inr out \<and>
     filter (\<lambda>x. date_str x = ''2024-03-01'') (baselines_after out) =
       [example_row ''2024-03-01'' ''c2'' ''150'' ''50'',
        example_row ''2024-03-01'' ''d3'' ''120'' ''40''] \<and>
     returned out = Some report \<and> report ''CommitHash'' = Some (PyStr ''d3'')"
proof -
  let ?bs = "[example_row ''2024-03-01'' ''c2'' ''150'' ''50'',
        example_row ''2024-01-01'' ''a0'' ''100'' ''0'',
        example_row ''2024-03-01'' ''d3'' ''120'' ''40'']"
  from compare_baselines_ok[of ?bs float_of_digits] obtain out where
    out: "compare_baselines float_of_digits ?bs = Inr out"
    by (auto simp: example_row_record)
  have str: "list_all (\<lambda>x. is_str (date_key x)) ?bs"
    using example_row_record by (simp add: baseline_record_def)
  have latest: "example_row ''2024-03-01'' ''d3'' ''120'' ''40'' =
     last (filter (\<lambda>x. date_str x = Max (date_str ` set ?bs)) ?bs)"
    by (simp add: max_dates)
  have len: "2 \<le> length ?bs" by simp
  note st = date_sort_stable[OF out len str latest]
  from st have f: "filter (\<lambda>x. date_str x = ''2024-03-01'') (baselines_after out) =
      filter (\<lambda>x. date_str x = ''2024-03-01'') ?bs" by blast
  from st obtain report where "returned out = Some report"
    and "report ''CommitHash'' = cols (example_row ''2024-03-01'' ''d3'' ''120'' ''40'') ''CommitHash''"
    by blast
  with out f show ?thesis by (simp add: example_row_CommitHash)
qed

section \<open>Properties of the extraction\<close>



lemma extract_loop_patterns:
  "extract_loop patterns content (initial_metrics env bc) =
     initial_metrics env bc @ map (\<lambda>p. (fst p, metric_value content p)) patterns"
  by (simp add: patterns_def initial_metrics_def)




lemma metrics_dict_eq:
  "metrics_dict env content bc =
     initial_metrics env bc @ map (\<lambda>p. (fst p, metric_value content p)) patterns"
  by (simp add: metrics_dict_def extract_loop_patterns)








section \<open>Properties of the csv module\<close>

lemma universal_newlines_no_CR: "CR \<notin> set (universal_newlines t)"
  by (induction t rule: universal_newlines.induct) auto

lemma universal_newlines_length: "length (universal_newlines t) \<le> length t"
  by (induction t rule: universal_newlines.induct) auto

lemma un_not_CR: "c \<noteq> CR \<Longrightarrow> universal_newlines (c # xs) = c # universal_newlines xs"
  by (cases xs) auto

lemma un_CR_LF: "universal_newlines (CR # LF # xs) = LF # universal_newlines xs"
  by simp

lemma un_CR_other: "xs = [] \<or> hd xs \<noteq> LF \<Longrightarrow> universal_newlines (CR # xs) = LF # universal_newlines xs"
  by (cases xs) auto

lemma un_append:
  "ys = [] \<or> hd ys \<noteq> LF \<Longrightarrow>
   universal_newlines (xs @ ys) = universal_newlines xs @ universal_newlines ys"
proof (induction xs rule: universal_newlines.induct)
  case 1
  then show ?case by simp
next
  case (2 c)
  then show ?case by (cases ys) auto
next
  case (3 c d ds)
  then show ?case by auto
qed

lemma un_id: "CR \<notin> set xs \<Longrightarrow> universal_newlines xs = xs"
  by (induction xs rule: universal_newlines.induct) auto

lemma un_double_quotes:
  "universal_newlines (double_quotes f) = double_quotes (universal_newlines f)"
proof (induction f rule: universal_newlines.induct)
  case 1
  then show ?case by (simp add: double_quotes_def)
next
  case (2 c)
  then show ?case by (simp add: double_quotes_def)
next
  case (3 c d ds)
  then show ?case
    by (auto simp: double_quotes_def un_not_CR)
qed


lemmas reader_defs = csv_reader_def parse_process_char_def start_field_def end_of_line_def
  parse_add_char_def parse_save_field_def set_state_def is_newline_def parse_reset_def

lemma read_quoted_body:
  "length p + length f \<le> field_limit \<Longrightarrow> rest \<noteq> [] \<Longrightarrow>
   read_records \<lparr>pstate = IN_QUOTED_FIELD, pfields = acc, pfield = p\<rparr> (double_quotes f @ rest) =
   read_records \<lparr>pstate = IN_QUOTED_FIELD, pfields = acc, pfield = p @ f\<rparr> rest"
proof (induction f arbitrary: p)
  case Nil
  then show ?case by (simp add: double_quotes_def)
next
  case (Cons c f)
  from Cons.prems have lt: "\<not> field_limit \<le> length p" by simp
  have dq: "double_quotes (c # f) = (if c = CHR 0x22 then [c, c] else [c]) @ double_quotes f"
    by (simp add: double_quotes_def)
  have ne: "double_quotes f @ rest \<noteq> []" using Cons.prems by simp
  have ih: "read_records \<lparr>pstate = IN_QUOTED_FIELD, pfields = acc, pfield = p @ [c]\<rparr> (double_quotes f @ rest) =
   read_records \<lparr>pstate = IN_QUOTED_FIELD, pfields = acc, pfield = (p @ [c]) @ f\<rparr> rest"
    using Cons.prems by (intro Cons.IH) auto
  show ?case using lt ne ih
    by (auto simp: dq reader_defs)
qed


lemma read_quoted_comma:
  assumes "length f \<le> field_limit" and "rest \<noteq> []"
  shows "read_records \<lparr>pstate = START_FIELD, pfields = acc, pfield = []\<rparr>
           (quote_field f @ CHR '','' # rest) =
         read_records \<lparr>pstate = START_FIELD, pfields = acc @ [f], pfield = []\<rparr> rest"
proof -
  have "read_records \<lparr>pstate = START_FIELD, pfields = acc, pfield = []\<rparr>
           (quote_field f @ CHR '','' # rest) =
        read_records \<lparr>pstate = IN_QUOTED_FIELD, pfields = acc, pfield = []\<rparr>
           (double_quotes f @ (CHR 0x22 # CHR '','' # rest))"
    by (simp add: quote_field_def reader_defs)
  also have "\<dots> = read_records \<lparr>pstate = IN_QUOTED_FIELD, pfields = acc, pfield = [] @ f\<rparr>
           (CHR 0x22 # CHR '','' # rest)"
    using assms by (intro read_quoted_body) simp_all
  also have "\<dots> = read_records \<lparr>pstate = START_FIELD, pfields = acc @ [f], pfield = []\<rparr> rest"
    using assms by (simp add: reader_defs)
  finally show ?thesis .
qed

lemma read_quoted_eol:
  assumes "length f \<le> field_limit"
  shows "read_records \<lparr>pstate = START_FIELD, pfields = acc, pfield = []\<rparr>
           (quote_field f @ LF # rest) =
         map_sum id (Cons (acc @ [f])) (read_records parse_reset rest)"
proof -
  have "read_records \<lparr>pstate = START_FIELD, pfields = acc, pfield = []\<rparr>
           (quote_field f @ LF # rest) =
        read_records \<lparr>pstate = IN_QUOTED_FIELD, pfields = acc, pfield = []\<rparr>
           (double_quotes f @ (CHR 0x22 # LF # rest))"
    by (simp add: quote_field_def reader_defs)
  also have "\<dots> = read_records \<lparr>pstate = IN_QUOTED_FIELD, pfields = acc, pfield = [] @ f\<rparr>
           (CHR 0x22 # LF # rest)"
    using assms by (intro read_quoted_body) simp_all
  also have "\<dots> = map_sum id (Cons (acc @ [f])) (read_records parse_reset rest)"
    by (simp add: reader_defs)
  finally show ?thesis .
qed

lemma read_plain_body:
  "\<not> needs_quotes f \<Longrightarrow> length p + length f \<le> field_limit \<Longrightarrow> rest \<noteq> [] \<Longrightarrow>
   read_records \<lparr>pstate = IN_FIELD, pfields = acc, pfield = p\<rparr> (f @ rest) =
   read_records \<lparr>pstate = IN_FIELD, pfields = acc, pfield = p @ f\<rparr> rest"
proof (induction f arbitrary: p)
  case Nil
  then show ?case by simp
next
  case (Cons c f)
  from Cons.prems have lt: "\<not> field_limit \<le> length p" by simp
  from Cons.prems have c: "c \<noteq> CHR '',''" "c \<noteq> CHR 0x22" "c \<noteq> CR" "c \<noteq> LF"
    and nq: "\<not> needs_quotes f" by (auto simp: needs_quotes_def)
  have ih: "read_records \<lparr>pstate = IN_FIELD, pfields = acc, pfield = p @ [c]\<rparr> (f @ rest) =
   read_records \<lparr>pstate = IN_FIELD, pfields = acc, pfield = (p @ [c]) @ f\<rparr> rest"
    using Cons.prems nq by (intro Cons.IH) auto
  show ?case using lt c ih Cons.prems(3) by (simp add: reader_defs)
qed

lemma read_plain_start:
  assumes "\<not> needs_quotes f" and "length f \<le> field_limit" and "rest \<noteq> []" and "f \<noteq> []"
  shows "read_records \<lparr>pstate = START_FIELD, pfields = acc, pfield = []\<rparr> (f @ rest) =
         read_records \<lparr>pstate = IN_FIELD, pfields = acc, pfield = f\<rparr> rest"
proof -
  from assms(4) obtain c f' where f: "f = c # f'" by (cases f) auto
  with assms(1) have c: "c \<noteq> CHR '',''" "c \<noteq> CHR 0x22" "c \<noteq> CR" "c \<noteq> LF"
    and nq: "\<not> needs_quotes f'" by (auto simp: needs_quotes_def)
  have "0 < field_limit" by (simp add: field_limit_def)
  then have "read_records \<lparr>pstate = START_FIELD, pfields = acc, pfield = []\<rparr> (f @ rest) =
     read_records \<lparr>pstate = IN_FIELD, pfields = acc, pfield = [c]\<rparr> (f' @ rest)"
    using c assms(3) by (simp add: f reader_defs)
  also have "\<dots> = read_records \<lparr>pstate = IN_FIELD, pfields = acc, pfield = [c] @ f'\<rparr> rest"
    using nq assms(2,3) f by (intro read_plain_body) simp_all
  finally show ?thesis by (simp add: f)
qed

lemma read_plain_comma:
  assumes "\<not> needs_quotes f" and "length f \<le> field_limit" and "rest \<noteq> []"
  shows "read_records \<lparr>pstate = START_FIELD, pfields = acc, pfield = []\<rparr>
           (f @ CHR '','' # rest) =
         read_records \<lparr>pstate = START_FIELD, pfields = acc @ [f], pfield = []\<rparr> rest"
proof (cases "f = []")
  case True
  with assms(3) show ?thesis by (simp add: reader_defs)
next
  case False
  with assms have "read_records \<lparr>pstate = START_FIELD, pfields = acc, pfield = []\<rparr>
           (f @ CHR '','' # rest) =
     read_records \<lparr>pstate = IN_FIELD, pfields = acc, pfield = f\<rparr> (CHR '','' # rest)"
    by (intro read_plain_start) simp_all
  also have "\<dots> = read_records \<lparr>pstate = START_FIELD, pfields = acc @ [f], pfield = []\<rparr> rest"
    using assms(3) by (simp add: reader_defs)
  finally show ?thesis .
qed

lemma read_plain_eol:
  assumes "\<not> needs_quotes f" and "length f \<le> field_limit"
  shows "read_records \<lparr>pstate = START_FIELD, pfields = acc, pfield = []\<rparr> (f @ LF # rest) =
         map_sum id (Cons (acc @ [f])) (read_records parse_reset rest)"
proof (cases "f = []")
  case True
  then show ?thesis by (simp add: reader_defs)
next
  case False
  with assms have "read_records \<lparr>pstate = START_FIELD, pfields = acc, pfield = []\<rparr>
           (f @ LF # rest) =
     read_records \<lparr>pstate = IN_FIELD, pfields = acc, pfield = f\<rparr> (LF # rest)"
    by (intro read_plain_start) simp_all
  also have "\<dots> = map_sum id (Cons (acc @ [f])) (read_records parse_reset rest)"
    by (simp add: reader_defs)
  finally show ?thesis .
qed

lemma read_field_comma:
  "readable (q, f) \<Longrightarrow> rest \<noteq> [] \<Longrightarrow>
   read_records \<lparr>pstate = START_FIELD, pfields = acc, pfield = []\<rparr>
     (field_text q f @ CHR '','' # rest) =
   read_records \<lparr>pstate = START_FIELD, pfields = acc @ [f], pfield = []\<rparr> rest"
  by (auto simp: readable_def field_text_def read_quoted_comma read_plain_comma)

lemma read_field_eol:
  "readable (q, f) \<Longrightarrow>
   read_records \<lparr>pstate = START_FIELD, pfields = acc, pfield = []\<rparr> (field_text q f @ LF # rest) =
   map_sum id (Cons (acc @ [f])) (read_records parse_reset rest)"
  by (auto simp: readable_def field_text_def read_quoted_eol read_plain_eol)

lemma read_row_fields:
  "qs \<noteq> [] \<Longrightarrow> list_all readable qs \<Longrightarrow>
   read_records \<lparr>pstate = START_FIELD, pfields = acc, pfield = []\<rparr> (row_text qs @ LF # rest) =
   map_sum id (Cons (acc @ map snd qs)) (read_records parse_reset rest)"
proof (induction qs arbitrary: acc)
  case Nil
  then show ?case by simp
next
  case (Cons x qs)
  obtain q f where x: "x = (q, f)" by (cases x)
  from Cons.prems x have r: "readable (q, f)" by simp
  show ?case
  proof (cases qs)
    case Nil
    with x read_field_eol[OF r, of acc rest] show ?thesis by (simp add: row_text_def id_def)
  next
    case (Cons y zs)
    then have t: "row_text (x # qs) @ LF # rest = field_text q f @ CHR '','' # (row_text qs @ LF # rest)"
      by (simp add: row_text_def x)
    have "read_records \<lparr>pstate = START_FIELD, pfields = acc, pfield = []\<rparr> (row_text (x # qs) @ LF # rest) =
      read_records \<lparr>pstate = START_FIELD, pfields = acc @ [f], pfield = []\<rparr> (row_text qs @ LF # rest)"
      unfolding t using r by (intro read_field_comma) simp_all
    also have "\<dots> = map_sum id (Cons ((acc @ [f]) @ map snd qs)) (read_records parse_reset rest)"
      using Cons Cons.prems by (intro Cons.IH) simp_all
    finally show ?thesis by (simp add: x id_def)
  qed
qed

lemma start_record_as_field:
  "\<not> is_newline c \<Longrightarrow>
   read_records parse_reset (c # cs) =
   read_records \<lparr>pstate = START_FIELD, pfields = [], pfield = []\<rparr> (c # cs)"
  by (simp add: parse_process_char_def parse_reset_def set_state_def)

lemma row_text_starts:
  assumes "qs \<noteq> []" and "list_all readable qs"
    and "length qs = 1 \<longrightarrow> fst (hd qs) \<or> snd (hd qs) \<noteq> []"
  shows "\<exists>c cs. row_text qs @ LF # rest = c # cs \<and> \<not> is_newline c"
proof -
  from assms(1) obtain q f qs' where qs: "qs = (q, f) # qs'" by (cases qs) auto
  show ?thesis
  proof (cases q)
    case True
    then show ?thesis
      by (cases qs') (auto simp: qs row_text_def field_text_def quote_field_def is_newline_def)
  next
    case False
    with assms(2) qs have nq: "\<not> needs_quotes f" by (simp add: readable_def)
    show ?thesis
    proof (cases f)
      case Nil
      with False assms(3) qs obtain y zs where "qs' = y # zs" by (cases qs') auto
      with Nil False show ?thesis
        by (auto simp: qs row_text_def field_text_def is_newline_def)
    next
      case (Cons c f')
      with nq have "\<not> is_newline c" by (auto simp: needs_quotes_def is_newline_def)
      with Cons False show ?thesis
        by (cases qs') (auto simp: qs row_text_def field_text_def)
    qed
  qed
qed

lemma read_row:
  assumes "qs \<noteq> []" and "list_all readable qs"
    and "length qs = 1 \<longrightarrow> fst (hd qs) \<or> snd (hd qs) \<noteq> []"
  shows "read_records parse_reset (row_text qs @ LF # rest) =
         map_sum id (Cons (map snd qs)) (read_records parse_reset rest)"
proof -
  from row_text_starts[OF assms, of rest] obtain c cs where
    t: "row_text qs @ LF # rest = c # cs" and c: "\<not> is_newline c" by blast
  have "read_records parse_reset (row_text qs @ LF # rest) =
     read_records \<lparr>pstate = START_FIELD, pfields = [], pfield = []\<rparr> (row_text qs @ LF # rest)"
    unfolding t using c by (rule start_record_as_field)
  also have "\<dots> = map_sum id (Cons ([] @ map snd qs)) (read_records parse_reset rest)"
    using assms(1,2) by (rule read_row_fields)
  finally show ?thesis by simp
qed

lemma un_Nil_iff: "universal_newlines f = [] \<longleftrightarrow> f = []"
  by (induction f rule: universal_newlines.induct) auto

lemma un_write_field:
  "universal_newlines (write_field b f) = field_text (quoted b f) (universal_newlines f)"
proof (cases "quoted b f")
  case True
  have "universal_newlines (quote_field f) =
      CHR 0x22 # universal_newlines (double_quotes f @ [CHR 0x22])"
    by (simp add: quote_field_def un_not_CR)
  also have "\<dots> = CHR 0x22 # universal_newlines (double_quotes f) @ universal_newlines [CHR 0x22]"
    by (subst un_append) simp_all
  also have "\<dots> = quote_field (universal_newlines f)"
    by (simp add: quote_field_def un_double_quotes)
  finally show ?thesis using True by (simp add: write_field_def quoted_def field_text_def)
next
  case False
  then have "CR \<notin> set f" by (auto simp: quoted_def needs_quotes_def list_ex_iff)
  then have "universal_newlines f = f" by (rule un_id)
  with False show ?thesis by (auto simp: write_field_def quoted_def field_text_def)
qed

lemma un_row:
  "universal_newlines (join_fields (map (write_field b) fs) @ CR # LF # rest) =
   row_text (map (\<lambda>f. (quoted b f, universal_newlines f)) fs) @ LF # universal_newlines rest"
proof (induction fs rule: join_fields.induct)
  case 1
  then show ?case by (simp add: row_text_def)
next
  case (2 f)
  have "universal_newlines (write_field b f @ CR # LF # rest) =
     universal_newlines (write_field b f) @ universal_newlines (CR # LF # rest)"
    by (rule un_append) simp
  then show ?case by (simp add: row_text_def un_write_field)
next
  case (3 f g fs)
  have "universal_newlines (write_field b f @ CHR '','' # join_fields (map (write_field b) (g # fs)) @ CR # LF # rest) =
     universal_newlines (write_field b f) @
     universal_newlines (CHR '','' # join_fields (map (write_field b) (g # fs)) @ CR # LF # rest)"
    by (rule un_append) simp
  also have "\<dots> = field_text (quoted b f) (universal_newlines f) @
     CHR '','' # universal_newlines (join_fields (map (write_field b) (g # fs)) @ CR # LF # rest)"
    by (simp add: un_write_field un_not_CR)
  finally show ?case using 3 by (simp add: row_text_def)
qed

lemma readable_written:
  "length f \<le> field_limit \<Longrightarrow> readable (quoted b f, universal_newlines f)"
proof (cases "quoted b f")
  case True
  assume "length f \<le> field_limit"
  with True universal_newlines_length[of f] show ?thesis by (simp add: readable_def)
next
  case False
  assume l: "length f \<le> field_limit"
  from False have "CR \<notin> set f" and nq: "\<not> needs_quotes f"
    by (auto simp: quoted_def needs_quotes_def list_ex_iff)
  then have "universal_newlines f = f" by (simp add: un_id)
  with nq l show ?thesis by (simp add: readable_def)
qed

lemma read_written_row:
  assumes "fs \<noteq> []" and "\<forall>f\<in>set fs. length f \<le> field_limit"
  shows "read_records parse_reset (universal_newlines (csv_writerow fs @ rest)) =
         map_sum id (Cons (map universal_newlines fs))
           (read_records parse_reset (universal_newlines rest))"
proof -
  let ?qs = "map (\<lambda>f. (quoted (length fs = 1) f, universal_newlines f)) fs"
  have t: "universal_newlines (csv_writerow fs @ rest) = row_text ?qs @ LF # universal_newlines rest"
    using un_row[of "length fs = 1" fs rest] by (simp add: csv_writerow_def)
  have ne: "?qs \<noteq> []" using assms(1) by simp
  have r: "list_all readable ?qs"
    using assms(2) by (simp add: list_all_iff readable_written)
  have s: "length ?qs = 1 \<longrightarrow> fst (hd ?qs) \<or> snd (hd ?qs) \<noteq> []"
    using assms(1) by (cases fs) (auto simp: quoted_def un_Nil_iff)
  have m: "map snd ?qs = map universal_newlines fs" by (simp add: comp_def)
  have "read_records parse_reset (row_text ?qs @ LF # universal_newlines rest) =
     map_sum id (Cons (map snd ?qs)) (read_records parse_reset (universal_newlines rest))"
    by (rule read_row[OF ne r s])
  then show ?thesis unfolding t m .
qed

lemma csv_round_trip:
  "\<forall>fs\<in>set rows. fs \<noteq> [] \<and> (\<forall>f\<in>set fs. length f \<le> field_limit) \<Longrightarrow>
   csv_reader (universal_newlines (concat (map csv_writerow rows))) =
     Inr (map (map universal_newlines) rows)"
proof (induction rows)
  case Nil
  then show ?case by (simp add: csv_reader_def parse_reset_def)
next
  case (Cons fs rows)
  then have "read_records parse_reset (universal_newlines (csv_writerow fs @ concat (map csv_writerow rows))) =
     map_sum id (Cons (map universal_newlines fs))
       (read_records parse_reset (universal_newlines (concat (map csv_writerow rows))))"
    by (intro read_written_row) simp_all
  with Cons show ?case by (simp add: csv_reader_def)
qed

section \<open>Properties of the ledger\<close>

lemma header_line_eq: "csv_writerow fieldnames = header_line"
  by (simp add: csv_writerow_def fieldnames_def header_line_def write_field_def needs_quotes_def)

lemma dict_to_list_metrics:
  "dict_to_list fieldnames (metrics_dict env content bc) = Inr (record_values env content bc)"
  by (simp add: dict_to_list_def metrics_dict_eq fieldnames_def initial_metrics_def patterns_def record_values_def)

lemma writeheader_eq: "writeheader fieldnames f = Inr (f @ header_line)"
  by (simp add: writeheader_def dict_writerow_def dict_to_list_def fieldnames_def csv_writerow_def write_field_def needs_quotes_def header_line_def)

lemma extract_metrics_absent:
  "extract_metrics env content None bc = Inr (header_line @ csv_writerow (record_values env content bc))"
  by (simp add: extract_metrics_def writeheader_eq dict_writerow_def dict_to_list_metrics)

lemma extract_metrics_existing:
  "extract_metrics env content (Some s) bc = Inr (s @ csv_writerow (record_values env content bc))"
  by (simp add: extract_metrics_def dict_writerow_def dict_to_list_metrics)

lemma process_char_ok:
  assumes "pstate r \<noteq> EAT_CRNL" and "length (pfield r) < field_limit"
  shows "\<exists>r1. parse_process_char r (Ch c) = Inr r1 \<and> length (pfield r1) \<le> Suc (length (pfield r)) \<and>
     (pstate r1 = EAT_CRNL \<longrightarrow> is_newline c)"
  using assms
  by (cases "pstate r")
     (auto simp: parse_process_char_def start_field_def end_of_line_def parse_add_char_def
        parse_save_field_def set_state_def)

lemma process_EOL_ok:
  "\<exists>r2. parse_process_char r EOL = Inr r2 \<and> length (pfield r2) \<le> length (pfield r) \<and>
     pstate r2 \<noteq> EAT_CRNL"
  by (cases "pstate r")
     (auto simp: parse_process_char_def start_field_def end_of_line_def
        parse_save_field_def set_state_def)

lemma read_records_ok:
  "CR \<notin> set t \<Longrightarrow> pstate r \<noteq> EAT_CRNL \<Longrightarrow> length (pfield r) + length t \<le> field_limit \<Longrightarrow>
   \<exists>rows. read_records r t = Inr rows"
proof (induction t arbitrary: r)
  case Nil
  then show ?case by simp
next
  case (Cons c cs)
  from Cons.prems have lt: "length (pfield r) < field_limit" by simp
  from process_char_ok[OF Cons.prems(2) lt, of c] obtain r1 where
    r1: "parse_process_char r (Ch c) = Inr r1" and l1: "length (pfield r1) \<le> Suc (length (pfield r))"
    and e1: "pstate r1 = EAT_CRNL \<longrightarrow> is_newline c" by blast
  from Cons.prems have cr: "CR \<notin> set cs" and "c \<noteq> CR" by auto
  show ?case
  proof (cases "c = LF \<or> cs = []")
    case True
    from process_EOL_ok[of r1] obtain r2 where
      r2: "parse_process_char r1 EOL = Inr r2" and l2: "length (pfield r2) \<le> length (pfield r1)"
      and e2: "pstate r2 \<noteq> EAT_CRNL" by blast
    have a: "\<exists>rows. read_records parse_reset cs = Inr rows"
      using cr Cons.prems(3) by (intro Cons.IH) (auto simp: parse_reset_def)
    have b: "\<exists>rows. read_records r2 cs = Inr rows"
      using cr e2 l1 l2 Cons.prems(3) by (intro Cons.IH) auto
    from a b r1 r2 True show ?thesis by auto
  next
    case False
    with e1 \<open>c \<noteq> CR\<close> have "pstate r1 \<noteq> EAT_CRNL" by (auto simp: is_newline_def)
    then have "\<exists>rows. read_records r1 cs = Inr rows"
      using cr l1 Cons.prems(3) by (intro Cons.IH) auto
    with r1 False show ?thesis by auto
  qed
qed

lemma load_baselines_ok:
  assumes "length t \<le> field_limit"
  shows "\<exists>rows. load_baselines t = Inr rows"
proof -
  have "\<exists>rs. read_records parse_reset (universal_newlines t) = Inr rs"
    using assms universal_newlines_length[of t]
    by (intro read_records_ok universal_newlines_no_CR) (auto simp: parse_reset_def)
  then show ?thesis
    by (auto simp: load_baselines_def dict_reader_def csv_reader_def split: list.splits)
qed

lemma map_of_const: "map_of (map (\<lambda>k. (k, v)) ks) k = (if k \<in> set ks then Some v else None)"
  by (induction ks) auto

lemma map_of_rev_distinct: "distinct (map fst xs) \<Longrightarrow> map_of (rev xs) = map_of xs"
  by (metis distinct_rev rev_map map_of_inject_set set_rev)

lemma map_of_zip_short:
  "distinct h \<Longrightarrow> i < length h \<Longrightarrow> i < length ys \<Longrightarrow> map_of (zip h ys) (h ! i) = Some (ys ! i)"
proof (induction h arbitrary: i ys)
  case Nil
  then show ?case by simp
next
  case (Cons a h)
  then obtain y ys' where ys: "ys = y # ys'" by (cases ys) auto
  show ?case
  proof (cases i)
    case 0
    with ys show ?thesis by simp
  next
    case (Suc j)
    with Cons.prems ys have "h ! j \<noteq> a" by auto
    with Cons.IH[of j ys'] Cons.prems ys Suc show ?thesis by simp
  qed
qed

lemma nth_in_drop: "distinct h \<Longrightarrow> i < length h \<Longrightarrow> (h ! i \<in> set (drop n h)) = (n \<le> i)"
proof
  assume d: "distinct h" and i: "i < length h" and "h ! i \<in> set (drop n h)"
  then obtain j where j: "j < length (drop n h)" and e: "drop n h ! j = h ! i"
    by (auto simp: in_set_conv_nth)
  from j have "n + j < length h" by simp
  with e j have "h ! (n + j) = h ! i" by simp
  with d i \<open>n + j < length h\<close> have "n + j = i" by (simp add: nth_eq_iff_index_eq)
  then show "n \<le> i" by simp
next
  assume d: "distinct h" and i: "i < length h" and n: "n \<le> i"
  then have "drop n h ! (i - n) = h ! i" and "i - n < length (drop n h)" by simp_all
  then show "h ! i \<in> set (drop n h)" by (metis nth_mem)
qed

lemma dict_row_cols:
  assumes "distinct h" and "i < length h"
  shows "cols (dict_row h r) (h ! i) = Some (if i < length r then PyStr (r ! i) else PyNone)"
proof (cases "i < length r")
  case True
  have "distinct (map fst (zip h (map PyStr r)))"
    using assms(1) by (simp add: map_fst_zip_take)
  then have "map_of (rev (zip h (map PyStr r))) (h ! i) = map_of (zip h (map PyStr r)) (h ! i)"
    by (simp add: map_of_rev_distinct)
  also have "\<dots> = Some (PyStr (r ! i))"
    using assms True by (simp add: map_of_zip_short)
  finally show ?thesis
    using assms True by (simp add: dict_row_def map_add_def map_of_const nth_in_drop)
next
  case False
  with assms show ?thesis
    by (simp add: dict_row_def map_add_def map_of_const nth_in_drop)
qed

lemma dict_row_extra:
  "extra (dict_row h r) = (if length h < length r then Some (drop (length h) r) else None)"
  by (simp add: dict_row_def)

lemmas reader_simps = reader_defs field_limit_def

lemma damaged_read:
  "csv_reader (universal_newlines damaged_ledger) =
     Inr [fieldnames, [''2024-01-01'', ''a0''],
          [''2024-01-02'', ''b1'', ''cpu'', ''32GB'', ''Linux'', ''Release'', ''41'', ''52'', ''512'', ''7'', ''3'', ''4'', ''9'', ''8'']]"
  by (simp add: damaged_ledger_def header_line_def fieldnames_def reader_simps)

lemma damaged_load:
  "load_baselines damaged_ledger =
     Inr [dict_row fieldnames [''2024-01-01'', ''a0''],
          dict_row fieldnames [''2024-01-02'', ''b1'', ''cpu'', ''32GB'', ''Linux'', ''Release'', ''41'', ''52'', ''512'', ''7'', ''3'', ''4'', ''9'', ''8'']]"
  by (simp add: load_baselines_def dict_reader_def damaged_read)


lemma dict_row_short:
  "cols (dict_row fieldnames [''2024-01-01'', ''a0'']) ''Date'' = Some (PyStr ''2024-01-01'') \<and>
   cols (dict_row fieldnames [''2024-01-01'', ''a0'']) ''FileOpenTime'' = Some PyNone \<and>
   extra (dict_row fieldnames [''2024-01-01'', ''a0'']) = None"
  by (simp add: dict_row_def fieldnames_def)

lemma dict_row_long:
  "extra (dict_row fieldnames [''2024-01-02'', ''b1'', ''cpu'', ''32GB'', ''Linux'', ''Release'', ''41'', ''52'', ''512'', ''7'', ''3'', ''4'', ''9'', ''8'']) = Some [''8'']"
  by (simp add: dict_row_def fieldnames_def)

lemma damaged_ledger_length: "length damaged_ledger \<le> field_limit"
  by (simp add: damaged_ledger_def header_line_def field_limit_def)

lemma example_values:
  "record_values example_env example_output b =
     [''2024-01-01'', ''a0'', ''cpu'', ''32GB'', ''Linux 6.1'', b,
      ''42'', ''N/A'', ''512'', ''N/A'', ''N/A'', ''N/A'', ''N/A'']"
  by (simp add: record_values_def example_env_def patterns_def metric_value_def
      example_output_def match_at_def is_digit_def)

lemma example_line:
  "csv_writerow [''2024-01-01'', ''a0'', ''cpu'', ''32GB'', ''Linux 6.1'', ''Release'',
      ''42'', ''N/A'', ''512'', ''N/A'', ''N/A'', ''N/A'', ''N/A''] =
   ''2024-01-01,a0,cpu,32GB,Linux 6.1,Release,42,N/A,512,N/A,N/A,N/A,N/A'' @ [CR, LF]"
  by (simp add: csv_writerow_def write_field_def needs_quotes_def)

lemma example_line_debug:
  "csv_writerow [''2024-01-01'', ''a0'', ''cpu'', ''32GB'', ''Linux 6.1'', ''Debug'',
      ''42'', ''N/A'', ''512'', ''N/A'', ''N/A'', ''N/A'', ''N/A''] =
   ''2024-01-01,a0,cpu,32GB,Linux 6.1,Debug,42,N/A,512,N/A,N/A,N/A,N/A'' @ [CR, LF]"
  by (simp add: csv_writerow_def write_field_def needs_quotes_def)

lemma cr_line:
  "csv_writerow [''2024-01-01'', ''a0'', ''cpu'', ''32GB'', ''Linux 6.1'', ''Release'' @ [CR],
      ''42'', ''N/A'', ''512'', ''N/A'', ''N/A'', ''N/A'', ''N/A''] =
   ''2024-01-01,a0,cpu,32GB,Linux 6.1,'' @ [CHR 0x22] @ ''Release'' @ [CR, CHR 0x22] @
   '',42,N/A,512,N/A,N/A,N/A,N/A'' @ [CR, LF]"
  by (simp add: csv_writerow_def write_field_def needs_quotes_def quote_field_def double_quotes_def)

lemma cr_ledger_read:
  "csv_reader (universal_newlines (header_line @
      ''2024-01-01,a0,cpu,32GB,Linux 6.1,'' @ [CHR 0x22] @ ''Release'' @ [CR, CHR 0x22] @
      '',42,N/A,512,N/A,N/A,N/A,N/A'' @ [CR, LF])) =
   Inr [fieldnames,
        [''2024-01-01'', ''a0'', ''cpu'', ''32GB'', ''Linux 6.1'', ''Release'' @ [LF],
         ''42'', ''N/A'', ''512'', ''N/A'', ''N/A'', ''N/A'', ''N/A'']]"
  by (simp add: header_line_def fieldnames_def reader_simps)

lemma fieldnames_clean: "clean_rows [fieldnames]"
  by (simp add: clean_rows_def fieldnames_def field_limit_def)

lemma fieldnames_un: "map universal_newlines fieldnames = fieldnames"
  by (simp add: fieldnames_def)

lemma ledger_read:
  assumes "clean_rows rows"
  shows "csv_reader (universal_newlines (ledger rows)) =
           Inr (fieldnames # map (map universal_newlines) rows)"
proof -
  have "ledger rows = concat (map csv_writerow (fieldnames # rows))"
    by (simp add: ledger_def header_line_eq)
  moreover have "\<forall>fs\<in>set (fieldnames # rows). fs \<noteq> [] \<and> (\<forall>f\<in>set fs. length f \<le> field_limit)"
    using assms fieldnames_clean by (simp add: clean_rows_def)
  ultimately show ?thesis
    using csv_round_trip[of "fieldnames # rows"] by (simp add: fieldnames_un)
qed

lemma load_ledger:
  assumes "clean_rows rows"
  shows "load_baselines (ledger rows) =
           Inr (map (\<lambda>fs. dict_row fieldnames (map universal_newlines fs)) rows)"
proof -
  have "filter (\<lambda>r. r \<noteq> []) (map (map universal_newlines) rows) = map (map universal_newlines) rows"
    using assms by (auto simp: clean_rows_def filter_id_conv)
  then show ?thesis
    by (simp add: load_baselines_def dict_reader_def ledger_read[OF assms] comp_def)
qed

lemma extract_metrics_ledger:
  "extract_metrics env content (Some (ledger rows)) bc =
     Inr (ledger (rows @ [record_values env content bc]))"
  by (simp add: extract_metrics_existing ledger_def)

lemma metrics_dict_zip:
  "metrics_dict env content bc = zip fieldnames (record_values env content bc)"
  by (simp add: metrics_dict_eq initial_metrics_def patterns_def fieldnames_def record_values_def)

lemma distinct_fieldnames: "distinct fieldnames"
  by (simp add: fieldnames_def)

lemma length_record_values: "length (record_values env content bc) = length fieldnames"
  by (simp add: record_values_def patterns_def fieldnames_def)

lemma loaded_record_cols:
  assumes "(k, v) \<in> set (metrics_dict env content bc)"
  shows "cols (dict_row fieldnames (map universal_newlines (record_values env content bc))) k =
           Some (PyStr (universal_newlines v))"
proof -
  let ?vs = "record_values env content bc"
  from assms obtain i where i: "i < length fieldnames" "i < length ?vs"
    and k: "fieldnames ! i = k" and v: "?vs ! i = v"
    by (auto simp: metrics_dict_zip in_set_zip)
  from dict_row_cols[OF distinct_fieldnames i(1), of "map universal_newlines ?vs"] i k v
  show ?thesis by simp
qed

lemma example_values_short:
  "\<forall>v\<in>set (record_values example_env example_output ''Release'' @
             record_values example_env example_output ''Debug''). length v \<le> field_limit"
  by (simp add: example_values field_limit_def)

lemma example_values_un:
  "length b \<le> 10 \<Longrightarrow> CR \<notin> set b \<Longrightarrow> map universal_newlines (record_values example_env example_output b) =
     record_values example_env example_output b"
  by (simp add: example_values un_id)

text \<open>
  C5, as the specification states it, fails: \<open>load_baselines\<close> returns a record for a
  row of two cells (its other columns hold \<^verbatim>\<open>None\<close>) and for a row of fourteen cells
  (the surplus cell is listed under the key \<^verbatim>\<open>None\<close>), and raises nothing.
\<close>

theorem load_keeps_mismatched_rows_counterexample:
  "load_baselines damaged_ledger =
     Inr [dict_row fieldnames [''2024-01-01'', ''a0''],
          dict_row fieldnames [''2024-01-02'', ''b1'', ''cpu'', ''32GB'', ''Linux'', ''Release'',
                               ''41'', ''52'', ''512'', ''7'', ''3'', ''4'', ''9'', ''8'']] \<and>
   cols (dict_row fieldnames [''2024-01-01'', ''a0'']) ''FileOpenTime'' = Some PyNone \<and>
   extra (dict_row fieldnames [''2024-01-02'', ''b1'', ''cpu'', ''32GB'', ''Linux'', ''Release'',
                               ''41'', ''52'', ''512'', ''7'', ''3'', ''4'', ''9'', ''8'']) = Some [''8'']"
  using damaged_load dict_row_short dict_row_long by simp

text \<open>
  C5, amended. A column-count mismatch is not an error: on a ledger of at most 131072
  characters \<open>load_baselines\<close> raises nothing at all, and whenever the reader succeeds
  every non-blank row after the header becomes a record. In that record each column
  holds the row's cell at its position, or \<^verbatim>\<open>None\<close> when the row is too short, and the
  cells beyond the header's columns are listed under the key \<^verbatim>\<open>None\<close>.
\<close>

theorem load_accepts_any_row_length:
  "(length t \<le> field_limit \<longrightarrow> (\<exists>rows. load_baselines t = Inr rows)) \<and>
   (csv_reader (universal_newlines t) = Inr (h # rs) \<longrightarrow>
      load_baselines t = Inr (map (dict_row h) (filter (\<lambda>r. r \<noteq> []) rs))) \<and>
   (distinct h \<and> i < length h \<longrightarrow>
      cols (dict_row h r) (h ! i) = Some (if i < length r then PyStr (r ! i) else PyNone)) \<and>
   extra (dict_row h r) = (if length h < length r then Some (drop (length h) r) else None)"
  using load_baselines_ok[of t] dict_row_cols[of h i r] dict_row_extra[of h r]
  by (simp add: load_baselines_def dict_reader_def)

theorem load_accepts_any_row_length_witness:
  "(\<exists>rows. load_baselines damaged_ledger = Inr rows) \<and>
   load_baselines damaged_ledger =
     Inr [dict_row fieldnames [''2024-01-01'', ''a0''],
          dict_row fieldnames [''2024-01-02'', ''b1'', ''cpu'', ''32GB'', ''Linux'', ''Release'',
                               ''41'', ''52'', ''512'', ''7'', ''3'', ''4'', ''9'', ''8'']] \<and>
   cols (dict_row fieldnames [''2024-01-01'', ''a0'']) (fieldnames ! 1) = Some (PyStr ''a0'') \<and>
   cols (dict_row fieldnames [''2024-01-01'', ''a0'']) (fieldnames ! 6) = Some PyNone \<and>
   extra (dict_row fieldnames [''2024-01-01'', ''a0'']) = None"
  using load_accepts_any_row_length [of damaged_ledger fieldnames
      "[[''2024-01-01'', ''a0''],
        [''2024-01-02'', ''b1'', ''cpu'', ''32GB'', ''Linux'', ''Release'',
         ''41'', ''52'', ''512'', ''7'', ''3'', ''4'', ''9'', ''8'']]" 1 "[''2024-01-01'', ''a0'']"]
    load_accepts_any_row_length [of damaged_ledger fieldnames "[]" 6 "[''2024-01-01'', ''a0'']"]
    damaged_ledger_length damaged_read
  by (simp add: fieldnames_def)

text \<open>
  C7. An append to an absent ledger writes the header row and then the data row; an
  append to an existing ledger writes the data row only. So two appends starting from
  an absent ledger give the header, once, followed by the two data rows, and no later
  append writes a header. Read back (no value being longer than the field limit), that
  text is exactly three records: the field names and the values of the two appends,
  as the newline translation leaves them.
\<close>

theorem header_written_once:
  "extract_metrics env1 c1 None b1 =
     Inr (header_line @ csv_writerow (record_values env1 c1 b1)) \<and>
   extract_metrics env2 c2 (Some (header_line @ csv_writerow (record_values env1 c1 b1))) b2 =
     Inr (header_line @ csv_writerow (record_values env1 c1 b1) @
          csv_writerow (record_values env2 c2 b2)) \<and>
   extract_metrics env c (Some s) b = Inr (s @ csv_writerow (record_values env c b)) \<and>
   ((\<forall>v\<in>set (record_values env1 c1 b1 @ record_values env2 c2 b2). length v \<le> field_limit) \<longrightarrow>
      csv_reader (universal_newlines (header_line @ csv_writerow (record_values env1 c1 b1) @
          csv_writerow (record_values env2 c2 b2))) =
        Inr [fieldnames, map universal_newlines (record_values env1 c1 b1),
             map universal_newlines (record_values env2 c2 b2)])"
proof (intro conjI impI)
  show "extract_metrics env1 c1 None b1 =
     Inr (header_line @ csv_writerow (record_values env1 c1 b1))"
    by (rule extract_metrics_absent)
  show "extract_metrics env2 c2 (Some (header_line @ csv_writerow (record_values env1 c1 b1))) b2 =
     Inr (header_line @ csv_writerow (record_values env1 c1 b1) @
          csv_writerow (record_values env2 c2 b2))"
    by (simp add: extract_metrics_existing)
  show "extract_metrics env c (Some s) b = Inr (s @ csv_writerow (record_values env c b))"
    by (rule extract_metrics_existing)
next
  let ?v1 = "record_values env1 c1 b1" and ?v2 = "record_values env2 c2 b2"
  assume "\<forall>v\<in>set (?v1 @ ?v2). length v \<le> field_limit"
  moreover have "?v1 \<noteq> []" "?v2 \<noteq> []"
    using length_record_values[of env1 c1 b1] length_record_values[of env2 c2 b2]
    by (auto simp: fieldnames_def)
  ultimately have "clean_rows [?v1, ?v2]" by (simp add: clean_rows_def)
  from ledger_read[OF this]
  show "csv_reader (universal_newlines (header_line @ csv_writerow ?v1 @ csv_writerow ?v2)) =
        Inr [fieldnames, map universal_newlines ?v1, map universal_newlines ?v2]"
    by (simp add: ledger_def)
qed

text \<open>
  Two appends of the example run: the ledger text, and the three records (header and
  two data rows) that the reader finds in it.
\<close>

theorem header_written_once_witness:
  "extract_metrics example_env example_output None ''Release'' =
     Inr (header_line @
          ''2024-01-01,a0,cpu,32GB,Linux 6.1,Release,42,N/A,512,N/A,N/A,N/A,N/A'' @ [CR, LF]) \<and>
   extract_metrics example_env example_output
       (Some (header_line @
          ''2024-01-01,a0,cpu,32GB,Linux 6.1,Release,42,N/A,512,N/A,N/A,N/A,N/A'' @ [CR, LF]))
       ''Debug'' =
     Inr (header_line @
          ''2024-01-01,a0,cpu,32GB,Linux 6.1,Release,42,N/A,512,N/A,N/A,N/A,N/A'' @ [CR, LF] @
          ''2024-01-01,a0,cpu,32GB,Linux 6.1,Debug,42,N/A,512,N/A,N/A,N/A,N/A'' @ [CR, LF]) \<and>
   csv_reader (universal_newlines (header_line @
          ''2024-01-01,a0,cpu,32GB,Linux 6.1,Release,42,N/A,512,N/A,N/A,N/A,N/A'' @ [CR, LF] @
          ''2024-01-01,a0,cpu,32GB,Linux 6.1,Debug,42,N/A,512,N/A,N/A,N/A,N/A'' @ [CR, LF])) =
     Inr [fieldnames,
        [''2024-01-01'', ''a0'', ''cpu'', ''32GB'', ''Linux 6.1'', ''Release'',
         ''42'', ''N/A'', ''512'', ''N/A'', ''N/A'', ''N/A'', ''N/A''],
        [''2024-01-01'', ''a0'', ''cpu'', ''32GB'', ''Linux 6.1'', ''Debug'',
         ''42'', ''N/A'', ''512'', ''N/A'', ''N/A'', ''N/A'', ''N/A'']]"
proof -
  note h = header_written_once [of example_env example_output "''Release''" example_env
      example_output "''Debug''" example_env example_output header_line "''Release''"]
  have u1: "map universal_newlines (record_values example_env example_output ''Release'') =
      record_values example_env example_output ''Release''"
    and u2: "map universal_newlines (record_values example_env example_output ''Debug'') =
      record_values example_env example_output ''Debug''"
    by (simp_all add: example_values_un)
  from h example_values_short show ?thesis
    unfolding u1 u2
    by (simp only: example_values example_line example_line_debug append_assoc simp_thms)
qed

text \<open>
  C8 fails on the code for a record with a carriage return in a field. The writer
  opens the ledger with \<^verbatim>\<open>newline=''\<close>, \<open>load_baselines\<close> does not, so the newline
  translation rewrites the carriage return inside the quoted field: the build
  configuration \<^verbatim>\<open>Release\r\<close> is appended as it is and read back as \<^verbatim>\<open>Release\n\<close>.
\<close>

theorem round_trip_changes_carriage_return:
  "map_of (metrics_dict example_env example_output (''Release'' @ [CR])) ''BuildConfig'' =
     Some (''Release'' @ [CR]) \<and>
   extract_metrics example_env example_output (Some header_line) (''Release'' @ [CR]) =
     Inr (header_line @
          ''2024-01-01,a0,cpu,32GB,Linux 6.1,'' @ [CHR 0x22] @ ''Release'' @ [CR, CHR 0x22] @
          '',42,N/A,512,N/A,N/A,N/A,N/A'' @ [CR, LF]) \<and>
   load_baselines (header_line @
          ''2024-01-01,a0,cpu,32GB,Linux 6.1,'' @ [CHR 0x22] @ ''Release'' @ [CR, CHR 0x22] @
          '',42,N/A,512,N/A,N/A,N/A,N/A'' @ [CR, LF]) =
     Inr [dict_row fieldnames
        [''2024-01-01'', ''a0'', ''cpu'', ''32GB'', ''Linux 6.1'', ''Release'' @ [LF],
         ''42'', ''N/A'', ''512'', ''N/A'', ''N/A'', ''N/A'', ''N/A'']] \<and>
   cols (dict_row fieldnames
        [''2024-01-01'', ''a0'', ''cpu'', ''32GB'', ''Linux 6.1'', ''Release'' @ [LF],
         ''42'', ''N/A'', ''512'', ''N/A'', ''N/A'', ''N/A'', ''N/A'']) ''BuildConfig'' =
     Some (PyStr (''Release'' @ [LF]))"
proof (intro conjI)
  show "map_of (metrics_dict example_env example_output (''Release'' @ [CR])) ''BuildConfig'' =
     Some (''Release'' @ [CR])"
    by (simp add: metrics_dict_eq initial_metrics_def)
  show "extract_metrics example_env example_output (Some header_line) (''Release'' @ [CR]) =
     Inr (header_line @
          ''2024-01-01,a0,cpu,32GB,Linux 6.1,'' @ [CHR 0x22] @ ''Release'' @ [CR, CHR 0x22] @
          '',42,N/A,512,N/A,N/A,N/A,N/A'' @ [CR, LF])"
    by (simp only: extract_metrics_existing example_values cr_line)
  show "load_baselines (header_line @
          ''2024-01-01,a0,cpu,32GB,Linux 6.1,'' @ [CHR 0x22] @ ''Release'' @ [CR, CHR 0x22] @
          '',42,N/A,512,N/A,N/A,N/A,N/A'' @ [CR, LF]) =
     Inr [dict_row fieldnames
        [''2024-01-01'', ''a0'', ''cpu'', ''32GB'', ''Linux 6.1'', ''Release'' @ [LF],
         ''42'', ''N/A'', ''512'', ''N/A'', ''N/A'', ''N/A'', ''N/A'']]"
    by (simp only: load_baselines_def dict_reader_def cr_ledger_read) simp
  show "cols (dict_row fieldnames
        [''2024-01-01'', ''a0'', ''cpu'', ''32GB'', ''Linux 6.1'', ''Release'' @ [LF],
         ''42'', ''N/A'', ''512'', ''N/A'', ''N/A'', ''N/A'', ''N/A'']) ''BuildConfig'' =
     Some (PyStr (''Release'' @ [LF]))"
    by (simp add: dict_row_def fieldnames_def)
qed

text \<open>
  The round trip in general. On a ledger that appends have written, an append followed
  by \<open>load_baselines\<close> gives the earlier records unchanged and one more record, whose
  columns hold the appended values after the newline translation; a value without a
  carriage return comes back as it was written. So the carriage return is the only
  way in which the loaded record differs from the appended one.
\<close>

theorem append_then_load:
  assumes "clean_rows rows" and "\<forall>v\<in>set (record_values env content bc). length v \<le> field_limit"
  shows "\<exists>s old r.
           extract_metrics env content (Some (ledger rows)) bc = Inr s \<and>
           load_baselines (ledger rows) = Inr old \<and>
           load_baselines s = Inr (old @ [r]) \<and> extra r = None \<and>
           (\<forall>(k, v)\<in>set (metrics_dict env content bc).
              cols r k = Some (PyStr (universal_newlines v)) \<and>
              (CR \<notin> set v \<longrightarrow> cols r k = Some (PyStr v)))"
proof -
  let ?vs = "record_values env content bc"
  let ?r = "dict_row fieldnames (map universal_newlines ?vs)"
  have ne: "?vs \<noteq> []" using length_record_values[of env content bc] by (auto simp: fieldnames_def)
  have c: "clean_rows (rows @ [?vs])" using assms ne by (auto simp: clean_rows_def)
  have 1: "extract_metrics env content (Some (ledger rows)) bc = Inr (ledger (rows @ [?vs]))"
    by (rule extract_metrics_ledger)
  have 2: "load_baselines (ledger (rows @ [?vs])) =
      Inr (map (\<lambda>fs. dict_row fieldnames (map universal_newlines fs)) rows @ [?r])"
    by (simp add: load_ledger[OF c])
  have 3: "extra ?r = None" by (simp add: dict_row_extra length_record_values)
  have 4: "\<forall>(k, v)\<in>set (metrics_dict env content bc).
              cols ?r k = Some (PyStr (universal_newlines v)) \<and>
              (CR \<notin> set v \<longrightarrow> cols ?r k = Some (PyStr v))"
    by (auto simp: loaded_record_cols un_id)
  from 1 2 3 4 load_ledger[OF assms(1)] show ?thesis by blast
qed

theorem append_then_load_witness:
  "\<exists>s r.
     extract_metrics example_env example_output (Some (ledger [])) ''Release'' = Inr s \<and>
     load_baselines (ledger []) = Inr [] \<and> load_baselines s = Inr [r] \<and>
     cols r ''BuildConfig'' = Some (PyStr ''Release'') \<and>
     cols r ''FileOpenTime'' = Some (PyStr ''42'')"
proof -
  have v: "\<forall>v\<in>set (record_values example_env example_output ''Release''). length v \<le> field_limit"
    using example_values_short by simp
  have b: "(''BuildConfig'', ''Release'') \<in> set (metrics_dict example_env example_output ''Release'')"
    and f: "(''FileOpenTime'', ''42'') \<in> set (metrics_dict example_env example_output ''Release'')"
    by (simp_all add: metrics_dict_zip example_values fieldnames_def)
  from append_then_load[of "[]", OF _ v] obtain s old r where
    1: "extract_metrics example_env example_output (Some (ledger [])) ''Release'' = Inr s"
    and 2: "load_baselines (ledger []) = Inr old" and 3: "load_baselines s = Inr (old @ [r])"
    and 4: "\<forall>(k, v)\<in>set (metrics_dict example_env example_output ''Release'').
              cols r k = Some (PyStr (universal_newlines v)) \<and>
              (CR \<notin> set v \<longrightarrow> cols r k = Some (PyStr v))"
    by (auto simp: clean_rows_def)
  from 2 have old: "old = []" by (simp add: load_ledger clean_rows_def)
  from 4 b f have "cols r ''BuildConfig'' = Some (PyStr ''Release'')"
    and "cols r ''FileOpenTime'' = Some (PyStr ''42'')" by auto
  with 1 2 3 old show ?thesis by auto
qed

end
